theory Spec2Isabelle
  imports Main "HOL-Library.Sublist" "HOL-Library.Signed_Division" "HOL-Library.AList"
    "HOL-Library.Multiset"
begin

section \<open>Data model\<close>

text \<open>
  The entities of \<^verbatim>\<open>types/graphQL_entities_def.ts\<close>. A TypeScript object type is a
  record; a union of string literals is a datatype; \<^verbatim>\<open>T | null\<close> is an option.
  Field names that several types share (\<^verbatim>\<open>id\<close>, \<^verbatim>\<open>name\<close>, ...) carry the name of their
  type as a prefix. The back reference \<^verbatim>\<open>T_SaleLookupTable.sale\<close> is left out: it makes
  the type cyclic and no function under study reads it.

  Block numbers are naturals. \<^verbatim>\<open>T_Sale.price\<close> is the decimal string of the subgraph and is
  only ever read through \<^verbatim>\<open>BigNumber.from\<close>; the model holds the integer that string denotes.
\<close>

datatype Collection = curated | playground | factory

datatype Exchange = OSV1 | OSV2 | LOOKSRARE

datatype SaleType = Single | Bundle

record T_Project =
  project_id :: string
  project_name :: string
  project_artistAddress :: string
  curationStatus :: Collection
  additionalPayee :: "string option"
  additionalPayeePercentage :: "int option"

record T_Contract =
  contract_id :: string

record T_Token =
  token_id :: string
  contract :: T_Contract
  project :: T_Project

record T_SaleLookupTable =
  lookup_id :: string
  token :: T_Token

record T_Sale =
  sale_id :: string
  exchange :: Exchange
  saleType :: SaleType
  blockNumber :: nat
  blockTimestamp :: string
  seller :: string
  buyer :: string
  paymentToken :: string
  price :: int
  isPrivate :: bool
  summaryTokensSold :: string
  saleLookupTables :: "T_SaleLookupTable list"
  fees :: int

text \<open>The exceptions the code under study can raise.\<close>

datatype error =
  TypeError                 \<comment> \<open>a property read on \<^verbatim>\<open>undefined\<close>\<close>
  | DivisionByZero          \<comment> \<open>\<^verbatim>\<open>BigNumber.div\<close> by zero\<close>
  | InvalidBigNumber        \<comment> \<open>\<^verbatim>\<open>BigNumber.from\<close> of a value that is no number\<close>
  | UnknownPaymentToken     \<comment> \<open>\<^verbatim>\<open>addressToPaymentToken\<close> of an unlisted address\<close>
  | UnexpectedOSResponse    \<comment> \<open>the string thrown by the marketplace importer\<close>

section \<open>Sale filtering (\<^verbatim>\<open>SalesService.saleHasRoyalties\<close>, \<^verbatim>\<open>processSales\<close>)\<close>

text \<open>
  \<^verbatim>\<open>BLOCK_WHERE_PRIVATE_SALES_HAVE_ROYALTIES\<close> is declared in \<^verbatim>\<open>constant.ts\<close>, which is not
  among the sources; the predicate takes it as its first argument.
\<close>

definition saleHasRoyalties :: "nat \<Rightarrow> T_Sale \<Rightarrow> bool" where
  "saleHasRoyalties BLOCK_WHERE_PRIVATE_SALES_HAVE_ROYALTIES sale =
     (isPrivate sale = False \<or>
      (isPrivate sale \<and> blockNumber sale \<ge> BLOCK_WHERE_PRIVATE_SALES_HAVE_ROYALTIES))"

text \<open>
  \<^verbatim>\<open>SalesFilter\<close>: the optional \<^verbatim>\<open>contractFilterType\<close> and \<^verbatim>\<open>contractsFilter\<close> are always set
  together by the command handler, so they are one optional pair here.
\<close>

datatype ContractFilterType = ONLY | ONLY_NOT

record SalesFilter =
  collectionFilter :: "Collection option"
  contractFilter :: "(ContractFilterType \<times> string list) option"

definition curationFilterPass :: "SalesFilter \<Rightarrow> T_Token \<Rightarrow> bool" where
  "curationFilterPass salesFilter tk =
     (collectionFilter salesFilter = None \<or>
      Some (curationStatus (project tk)) = collectionFilter salesFilter)"

definition contractsFilterPass :: "SalesFilter \<Rightarrow> T_Token \<Rightarrow> bool" where
  "contractsFilterPass salesFilter tk =
     (case contractFilter salesFilter of
        None \<Rightarrow> True
      | Some (contractFilterType, contractsFilter) \<Rightarrow>
          (contractFilterType = ONLY \<and> contract_id (contract tk) \<in> set contractsFilter) \<or>
          (contractFilterType = ONLY_NOT \<and> contract_id (contract tk) \<notin> set contractsFilter))"

text \<open>
  The first \<^verbatim>\<open>sales.filter\<close> of \<^verbatim>\<open>processSales\<close> replaces the lookup tables of each sale, in
  place, by those that pass, and keeps the sale when one is left. The counters it feeds only
  reach the console.
\<close>

definition narrowSale :: "SalesFilter \<Rightarrow> T_Sale \<Rightarrow> T_Sale" where
  "narrowSale salesFilter sale =
     sale\<lparr>saleLookupTables :=
       filter (\<lambda>saleLookupTable.
                 curationFilterPass salesFilter (token saleLookupTable) \<and>
                 contractsFilterPass salesFilter (token saleLookupTable))
              (saleLookupTables sale)\<rparr>"

definition filterMatchingSales :: "SalesFilter \<Rightarrow> T_Sale list \<Rightarrow> T_Sale list" where
  "filterMatchingSales salesFilter sales =
     filter (\<lambda>sale. length (saleLookupTables sale) > 0) (map (narrowSale salesFilter) sales)"

text \<open>The sales \<^verbatim>\<open>processSales\<close> hands to \<^verbatim>\<open>generateProjectReports\<close>: both filters in turn.\<close>

definition processSales_filtered :: "nat \<Rightarrow> SalesFilter \<Rightarrow> T_Sale list \<Rightarrow> T_Sale list" where
  "processSales_filtered threshold salesFilter sales =
     filter (saleHasRoyalties threshold) (filterMatchingSales salesFilter sales)"

section \<open>Pagination (\<^verbatim>\<open>SalesService.getAllSalesBetweenBlockNumbers\<close>)\<close>

text \<open>
  The argument \<^verbatim>\<open>{ first, skip }\<close> of a query, the half-open block range of a query, and
  the order of its answer: descending block number, the sales of one block in the order the
  subgraph holds them.
\<close>

record T_Pagination =
  first :: nat
  skip :: nat

definition inBlockRange :: "nat \<Rightarrow> nat \<Rightarrow> T_Sale \<Rightarrow> bool" where
  "inBlockRange blockNumberGte blockNumberLt sale =
     (blockNumberGte \<le> blockNumber sale \<and> blockNumber sale < blockNumberLt)"

definition orderByBlockNumberDesc :: "T_Sale list \<Rightarrow> T_Sale list" where
  "orderByBlockNumberDesc sales = sort_key (\<lambda>sale. - int (blockNumber sale)) sales"

text \<open>
  Modelled from the spec: \<^verbatim>\<open>SalesRepository.getSalesBetweenBlockNumbers\<close>
  (\<^verbatim>\<open>repositories/sales_repository.ts\<close> is not among the sources). The spec gives its
  contract: \<^verbatim>\<open>fetchSalesPage(blockNumberGte, blockNumberLt, pageSize, skip=0)\<close> returns an
  ordered list of sales, descending by block number. The subgraph is the list of the sales
  it has indexed; a query takes those of the block range, orders them by descending block
  number, skips \<^verbatim>\<open>skip\<close> of them and returns the next \<^verbatim>\<open>first\<close>.
\<close>

definition getSalesBetweenBlockNumbers ::
  "T_Sale list \<Rightarrow> T_Pagination \<Rightarrow> nat \<Rightarrow> nat \<Rightarrow> T_Sale list" where
  "getSalesBetweenBlockNumbers subgraph pagination blockNumberGte blockNumberLt =
     take (first pagination) (drop (skip pagination)
       (orderByBlockNumberDesc (filter (inBlockRange blockNumberGte blockNumberLt) subgraph)))"

text \<open>
  The inner loop of \<^verbatim>\<open>getAllSalesBetweenBlockNumbers\<close>: \<^verbatim>\<open>newSales.pop()\<close> takes the last
  sale of the page; on an empty page it gives \<^verbatim>\<open>undefined\<close>, and reading \<^verbatim>\<open>blockNumber\<close> of
  it throws. The loop returns the page it leaves and the new \<^verbatim>\<open>blockNumberLt\<close>.
\<close>

function findBlockToSplit :: "T_Sale list \<Rightarrow> int \<Rightarrow> error + (T_Sale list \<times> nat)" where
  "findBlockToSplit newSales blockNumberFinalSale =
     (if newSales = [] then Inl TypeError
      else
        (let lastSale = last newSales;
             popped = butlast newSales
         in if blockNumberFinalSale = - 1
            then findBlockToSplit popped (int (blockNumber lastSale))
            else if blockNumberFinalSale < int (blockNumber lastSale)
            then Inr (popped @ [lastSale], blockNumber lastSale)
            else findBlockToSplit popped blockNumberFinalSale))"
  by pat_completeness auto
termination
  by (relation "measure (\<lambda>(newSales, blockNumberFinalSale). length newSales)") auto

declare findBlockToSplit.simps [simp del]

lemma findBlockToSplit_block_of_page:
  "findBlockToSplit newSales b = Inr (kept, n) \<Longrightarrow> \<exists>sale\<in>set newSales. blockNumber sale = n"
proof (induction newSales b rule: findBlockToSplit.induct)
  case (1 newSales b)
  show ?case
  proof (cases "newSales = []")
    case True
    with "1.prems" show ?thesis by (simp add: findBlockToSplit.simps)
  next
    case False
    then have l: "last newSales \<in> set newSales" by simp
    have sub: "set (butlast newSales) \<subseteq> set newSales"
      by (auto dest: in_set_butlastD)
    consider (first) "b = - 1"
      | (split) "b \<noteq> - 1" "b < int (blockNumber (last newSales))"
      | (pop) "b \<noteq> - 1" "\<not> b < int (blockNumber (last newSales))"
      by blast
    then show ?thesis
    proof cases
      case first
      with "1.prems" False
      have "findBlockToSplit (butlast newSales) (int (blockNumber (last newSales))) = Inr (kept, n)"
        by (simp add: findBlockToSplit.simps [of newSales] Let_def)
      from "1.IH"(1) [OF False refl refl first this] sub show ?thesis by blast
    next
      case split
      with "1.prems" False have "blockNumber (last newSales) = n"
        by (auto simp: findBlockToSplit.simps [of newSales] Let_def)
      with l show ?thesis by blast
    next
      case pop
      with "1.prems" False
      have "findBlockToSplit (butlast newSales) b = Inr (kept, n)"
        by (simp add: findBlockToSplit.simps [of newSales] Let_def)
      from "1.IH"(2) [OF False refl refl pop this] sub show ?thesis by blast
    qed
  qed
qed

lemma getSalesBetweenBlockNumbers_in_range:
  "sale \<in> set (getSalesBetweenBlockNumbers subgraph pagination gte lt) \<Longrightarrow>
   inBlockRange gte lt sale"
  by (auto simp: getSalesBetweenBlockNumbers_def orderByBlockNumberDesc_def
      dest!: in_set_takeD in_set_dropD)

text \<open>
  The outer loop. \<^verbatim>\<open>first\<close> is the page size, 1000 in the source. Each full page lowers
  \<^verbatim>\<open>blockNumberLt\<close> to the block number of one of its sales, all below the old bound, so the
  loop ends.
\<close>

function getAllSales_loop ::
  "T_Sale list \<Rightarrow> nat \<Rightarrow> T_Sale list \<Rightarrow> nat \<Rightarrow> nat \<Rightarrow> error + T_Sale list" where
  "getAllSales_loop subgraph page_size sales blockNumberGte blockNumberLt =
     (let newSales = getSalesBetweenBlockNumbers subgraph \<lparr>first = page_size, skip = 0\<rparr>
                       blockNumberGte blockNumberLt
      in if length newSales < page_size then Inr (sales @ newSales)
         else (case findBlockToSplit newSales (- 1) of
                 Inl e \<Rightarrow> Inl e
               | Inr (newSales', blockNumberLt') \<Rightarrow>
                   getAllSales_loop subgraph page_size (sales @ newSales') blockNumberGte
                     blockNumberLt'))"
  by pat_completeness auto
termination
proof (relation "measure (\<lambda>(subgraph, page_size, sales, gte, lt). lt)", goal_cases)
  case 1
  show ?case by simp
next
  case (2 subgraph page_size sales gte lt newSales split kept lt')
  then have "findBlockToSplit newSales (- 1) = Inr (kept, lt')" by simp
  from findBlockToSplit_block_of_page [OF this] obtain sale where
    "sale \<in> set newSales" "blockNumber sale = lt'" by blast
  with 2(1) getSalesBetweenBlockNumbers_in_range have "lt' < lt"
    by (auto simp: inBlockRange_def)
  then show ?case by simp
qed

declare getAllSales_loop.simps [simp del]

definition getAllSalesBetweenBlockNumbers :: "T_Sale list \<Rightarrow> nat \<times> nat \<Rightarrow> error + T_Sale list" where
  "getAllSalesBetweenBlockNumbers subgraph blockRange =
     (case blockRange of (blockNumberGte, blockNumberLt) \<Rightarrow>
        getAllSales_loop subgraph 1000 [] blockNumberGte blockNumberLt)"

text \<open>A list of sales in descending order of block number.\<close>

definition descending :: "T_Sale list \<Rightarrow> bool" where
  "descending sales = sorted_wrt (\<lambda>a b. blockNumber b \<le> blockNumber a) sales"

section \<open>Marketplace import (\<^verbatim>\<open>repositories/opensea_api.ts\<close>)\<close>

text \<open>
  The sources hold two variants of this file, one after the other; their functions carry
  the suffix \<open>_1\<close> (lines 1 to 212) and \<open>_2\<close> (lines 213 to 450).

  An event of the marketplace API, as far as the importer reads it. The API gives
  \<^verbatim>\<open>asset_bundle: null\<close> and an \<^verbatim>\<open>asset\<close> for a single sale, and an \<^verbatim>\<open>asset_bundle\<close> with its
  \<^verbatim>\<open>assets\<close> otherwise: the two cases of \<open>OS_Payload\<close>. The nested objects
  (\<^verbatim>\<open>transaction\<close>, \<^verbatim>\<open>winner_account\<close>, \<^verbatim>\<open>payment_token\<close>, \<^verbatim>\<open>collection\<close>) are flattened.
  The types \<^verbatim>\<open>T_OpenSeaSale\<close>, \<^verbatim>\<open>T_OpenSeaSaleLookupTable\<close>, \<^verbatim>\<open>T_TokenZero\<close> and the
  token with a \<^verbatim>\<open>tokenId\<close> are declared in a version of \<^verbatim>\<open>graphQL_entities_def.ts\<close> that is
  not among the sources; their fields are those of the object literals the importer builds.
\<close>

record OS_Asset =
  asset_token_id :: string
  collection_slug :: string

datatype OS_Payload = Asset OS_Asset | Asset_bundle "OS_Asset list"

record OS_Event =
  event_id :: string
  payload :: OS_Payload
  block_number :: nat
  timestamp :: string
  to_account_address :: string
  transaction_hash :: string
  winner_account_address :: string
  payment_token_address :: string
  total_price :: int
  is_private :: bool

record T_OpenSeaToken =
  os_token_id :: string
  tokenId :: string
  os_contract :: T_Contract
  os_project :: T_Project

record T_OpenSeaSaleLookupTable =
  os_lookup_id :: string
  os_token :: T_OpenSeaToken

record T_OpenSeaSale =
  os_sale_id :: string
  openSeaVersion :: string
  os_saleType :: SaleType
  os_blockNumber :: nat
  os_blockTimestamp :: string
  os_seller :: string
  os_buyer :: string
  os_paymentToken :: string
  os_price :: int
  os_isPrivate :: bool
  os_summaryTokensSold :: string
  openSeaSaleLookupTables :: "T_OpenSeaSaleLookupTable list"

record T_TokenZero =
  tokens :: "T_Token list"

text \<open>What the importer writes to the console, one constructor per message.\<close>

datatype diagnostic =
  WARN_bundle_with_multiple_slugs string
  | WARN_contact_devs
  | WARN_similar_slug string string string
  | WARN_contact_devs_or_OpenSea
  | ERROR_uniform_bundle_of_other_collection
  | ERROR_sale_tx_hash string
  | ERROR_reported_slug string
  | ERROR_expected_slug string
  | WARN_skipping_mixed_bundle string

text \<open>
  \<^verbatim>\<open>_summaryTokensSold\<close>: \<^verbatim>\<open>"dummy"\<close>, and for a bundle one \<^verbatim>\<open>"::dummy"\<close> more for each index
  from 1 below the number of assets.
\<close>

definition summaryTokensSold_of :: "OS_Payload \<Rightarrow> string" where
  "summaryTokensSold_of p =
     (case p of
        Asset a \<Rightarrow> ''dummy''
      | Asset_bundle assets \<Rightarrow> foldl (\<lambda>s i. s @ ''::dummy'') ''dummy'' [1..<length assets])"

definition saleType_of :: "OS_Payload \<Rightarrow> SaleType" where
  "saleType_of p = (case p of Asset a \<Rightarrow> Single | Asset_bundle assets \<Rightarrow> Bundle)"

text \<open>The \<^verbatim>\<open>_token\<close> literal, from \<^verbatim>\<open>tokenZero.tokens[0]\<close> and a token id.\<close>

definition newToken :: "T_Token \<Rightarrow> string \<Rightarrow> T_OpenSeaToken" where
  "newToken token0 tid =
     \<lparr>os_token_id = contract_id (contract token0) @ ''-'' @ tid, tokenId = tid,
      os_contract = contract token0, os_project = project token0\<rparr>"

definition singleLookupTable :: "T_Token \<Rightarrow> OS_Event \<Rightarrow> OS_Asset \<Rightarrow> T_OpenSeaSaleLookupTable" where
  "singleLookupTable token0 ev a =
     (let tk = newToken token0 (asset_token_id a)
      in \<lparr>os_lookup_id = project_id (project token0) @ '':'' @ os_token_id tk @ '':'' @ event_id ev,
          os_token = tk\<rparr>)"

definition bundleLookupTable :: "T_Token \<Rightarrow> OS_Event \<Rightarrow> OS_Asset \<Rightarrow> T_OpenSeaSaleLookupTable" where
  "bundleLookupTable token0 ev a =
     (let tk = newToken token0 (asset_token_id a)
      in \<lparr>os_lookup_id = project_id (project token0) @ ''::'' @ os_token_id tk @ ''::'' @ event_id ev,
          os_token = tk\<rparr>)"

text \<open>The \<^verbatim>\<open>_sale\<close> literal that closes the conversion of an event.\<close>

definition newSale :: "OS_Event \<Rightarrow> T_OpenSeaSaleLookupTable list \<Rightarrow> T_OpenSeaSale" where
  "newSale ev lookupTables =
     \<lparr>os_sale_id = event_id ev, openSeaVersion = ''Vunknown'',
      os_saleType = saleType_of (payload ev), os_blockNumber = block_number ev,
      os_blockTimestamp = timestamp ev, os_seller = to_account_address ev,
      os_buyer = winner_account_address ev, os_paymentToken = payment_token_address ev,
      os_price = total_price ev, os_isPrivate = is_private ev,
      os_summaryTokensSold = summaryTokensSold_of (payload ev),
      openSeaSaleLookupTables = lookupTables\<rparr>"

text \<open>
  The loops over the assets of a bundle take and return the console output so far and the
  lookup tables so far; an exception ends them, the console output kept.
  \<^verbatim>\<open>tokenZero.tokens[0]\<close> of an empty list is \<^verbatim>\<open>undefined\<close>, and reading it throws.
\<close>

type_synonym lookups = "diagnostic list \<times> (error + T_OpenSeaSaleLookupTable list)"

fun bundleAssets_1 ::
  "T_TokenZero \<Rightarrow> string \<Rightarrow> OS_Event \<Rightarrow> OS_Asset list \<Rightarrow>
   diagnostic list \<Rightarrow> T_OpenSeaSaleLookupTable list \<Rightarrow> lookups" where
  "bundleAssets_1 tokenZero collectionSlug ev [] log lookupTables = (log, Inr lookupTables)"
| "bundleAssets_1 tokenZero collectionSlug ev (a # assets) log lookupTables =
     (if collection_slug a = collectionSlug
      then (case tokens tokenZero of
              [] \<Rightarrow> (log, Inl TypeError)
            | token0 # _ \<Rightarrow>
                bundleAssets_1 tokenZero collectionSlug ev assets log
                  (lookupTables @ [bundleLookupTable token0 ev a]))
      else bundleAssets_1 tokenZero collectionSlug ev assets
             (log @ [WARN_bundle_with_multiple_slugs (transaction_hash ev), WARN_contact_devs])
             lookupTables)"

fun bundleAssets_2 ::
  "T_TokenZero \<Rightarrow> string \<Rightarrow> OS_Event \<Rightarrow> OS_Asset list \<Rightarrow>
   diagnostic list \<Rightarrow> T_OpenSeaSaleLookupTable list \<Rightarrow> lookups" where
  "bundleAssets_2 tokenZero collectionSlug ev [] log lookupTables = (log, Inr lookupTables)"
| "bundleAssets_2 tokenZero collectionSlug ev (a # assets) log lookupTables =
     (let openSeaCollectionSlug = collection_slug a;
          similar = (sublist collectionSlug openSeaCollectionSlug
                     \<and> openSeaCollectionSlug \<noteq> collectionSlug);
          log1 = (if similar
                  then log @ [WARN_similar_slug (asset_token_id a) collectionSlug
                                openSeaCollectionSlug,
                              WARN_contact_devs_or_OpenSea]
                  else log);
          slug1 = (if similar then collectionSlug else openSeaCollectionSlug)
      in if slug1 = collectionSlug
         then (case tokens tokenZero of
                 [] \<Rightarrow> (log1, Inl TypeError)
               | token0 # _ \<Rightarrow>
                   bundleAssets_2 tokenZero collectionSlug ev assets log1
                     (lookupTables @ [bundleLookupTable token0 ev a]))
         else (log1 @ [ERROR_uniform_bundle_of_other_collection,
                       ERROR_sale_tx_hash (transaction_hash ev),
                       ERROR_reported_slug slug1, ERROR_expected_slug collectionSlug],
               Inl UnexpectedOSResponse))"

text \<open>\<^verbatim>\<open>assets.every(a => a.collection.slug === assets[0].collection.slug)\<close>\<close>

definition everySameSlug :: "OS_Asset list \<Rightarrow> bool" where
  "everySameSlug assets =
     (case assets of
        [] \<Rightarrow> True
      | a0 # _ \<Rightarrow> list_all (\<lambda>a. collection_slug a = collection_slug a0) assets)"

text \<open>The conversion of one event: the body of the \<^verbatim>\<open>map\<close> callback.\<close>

definition eventToSale_1 ::
  "T_TokenZero \<Rightarrow> string \<Rightarrow> OS_Event \<Rightarrow> diagnostic list \<times> (error + T_OpenSeaSale)" where
  "eventToSale_1 tokenZero collectionSlug ev =
     (case (case payload ev of
              Asset a \<Rightarrow>
                (case tokens tokenZero of
                   [] \<Rightarrow> ([], Inl TypeError)
                 | token0 # _ \<Rightarrow> ([], Inr [singleLookupTable token0 ev a]))
            | Asset_bundle assets \<Rightarrow> bundleAssets_1 tokenZero collectionSlug ev assets [] []) of
        (log, Inl e) \<Rightarrow> (log, Inl e)
      | (log, Inr lookupTables) \<Rightarrow> (log, Inr (newSale ev lookupTables)))"

definition eventToSale_2 ::
  "T_TokenZero \<Rightarrow> string \<Rightarrow> OS_Event \<Rightarrow> diagnostic list \<times> (error + T_OpenSeaSale)" where
  "eventToSale_2 tokenZero collectionSlug ev =
     (case (case payload ev of
              Asset a \<Rightarrow>
                (case tokens tokenZero of
                   [] \<Rightarrow> ([], Inl TypeError)
                 | token0 # _ \<Rightarrow> ([], Inr [singleLookupTable token0 ev a]))
            | Asset_bundle assets \<Rightarrow>
                (if everySameSlug assets
                 then bundleAssets_2 tokenZero collectionSlug ev assets [] []
                 else ([WARN_skipping_mixed_bundle (transaction_hash ev)], Inr []))) of
        (log, Inl e) \<Rightarrow> (log, Inl e)
      | (log, Inr lookupTables) \<Rightarrow> (log, Inr (newSale ev lookupTables)))"

text \<open>\<^verbatim>\<open>openSeaEvents.map(...)\<close>: the events in turn, up to the first exception.\<close>

fun mapEvents ::
  "(OS_Event \<Rightarrow> diagnostic list \<times> (error + T_OpenSeaSale)) \<Rightarrow> OS_Event list \<Rightarrow>
   diagnostic list \<times> (error + T_OpenSeaSale list)" where
  "mapEvents f [] = ([], Inr [])"
| "mapEvents f (ev # events) =
     (case f ev of
        (log, Inl e) \<Rightarrow> (log, Inl e)
      | (log, Inr sale) \<Rightarrow>
          (case mapEvents f events of
             (log', Inl e) \<Rightarrow> (log @ log', Inl e)
           | (log', Inr sales) \<Rightarrow> (log @ log', Inr (sale # sales))))"

definition openSeaEventModelToSubgraphModel_1 ::
  "T_TokenZero \<Rightarrow> string \<Rightarrow> OS_Event list \<Rightarrow> diagnostic list \<times> (error + T_OpenSeaSale list)" where
  "openSeaEventModelToSubgraphModel_1 tokenZero collectionSlug openSeaEvents =
     mapEvents (eventToSale_1 tokenZero collectionSlug) openSeaEvents"

definition openSeaEventModelToSubgraphModel_2 ::
  "T_TokenZero \<Rightarrow> string \<Rightarrow> OS_Event list \<Rightarrow> diagnostic list \<times> (error + T_OpenSeaSale list)" where
  "openSeaEventModelToSubgraphModel_2 tokenZero collectionSlug openSeaEvents =
     mapEvents (eventToSale_2 tokenZero collectionSlug) openSeaEvents"

text \<open>
  The loop of \<^verbatim>\<open>getOpenSeaSalesEvents\<close> over the new sales of a page; its state is
  \<^verbatim>\<open>openSeaSales\<close> and \<^verbatim>\<open>_reachedMinBlockNumber\<close>. The first variant breaks at the first sale
  below \<^verbatim>\<open>minBlockNumber\<close>; the second sets the flag and goes on.
\<close>

fun keepFromMinBlock_1 ::
  "nat \<Rightarrow> T_OpenSeaSale list \<Rightarrow> T_OpenSeaSale list \<times> bool \<Rightarrow> T_OpenSeaSale list \<times> bool" where
  "keepFromMinBlock_1 minBlockNumber [] state = state"
| "keepFromMinBlock_1 minBlockNumber (sale # newOpenSeaSales) (openSeaSales, reached) =
     (if os_blockNumber sale \<ge> minBlockNumber
      then keepFromMinBlock_1 minBlockNumber newOpenSeaSales (openSeaSales @ [sale], reached)
      else (openSeaSales, True))"

fun keepFromMinBlock_2 ::
  "nat \<Rightarrow> T_OpenSeaSale list \<Rightarrow> T_OpenSeaSale list \<times> bool \<Rightarrow> T_OpenSeaSale list \<times> bool" where
  "keepFromMinBlock_2 minBlockNumber [] state = state"
| "keepFromMinBlock_2 minBlockNumber (sale # newOpenSeaSales) (openSeaSales, reached) =
     (if os_blockNumber sale \<ge> minBlockNumber
      then keepFromMinBlock_2 minBlockNumber newOpenSeaSales (openSeaSales @ [sale], reached)
      else keepFromMinBlock_2 minBlockNumber newOpenSeaSales (openSeaSales, True))"

text \<open>
  The loop over the pages. The transport is outside the model: the API's answers to the
  successive requests are given as the page in hand (\<^verbatim>\<open>data.asset_events\<close>) and the list of
  the pages after it; \<^verbatim>\<open>data.next\<close> is \<^verbatim>\<open>null\<close> exactly when that list is empty. The retries on
  a failed request and what the importer writes to the console are left out. The loop is
  given once for both variants, with the conversion and the scan of the variant.
\<close>

fun scrollPages ::
  "(OS_Event list \<Rightarrow> diagnostic list \<times> (error + T_OpenSeaSale list)) \<Rightarrow>
   (T_OpenSeaSale list \<Rightarrow> T_OpenSeaSale list \<times> bool \<Rightarrow> T_OpenSeaSale list \<times> bool) \<Rightarrow>
   OS_Event list \<Rightarrow> OS_Event list list \<Rightarrow> T_OpenSeaSale list \<Rightarrow>
   error + T_OpenSeaSale list" where
  "scrollPages convert scan asset_events later openSeaSales =
     (case snd (convert asset_events) of
        Inl e \<Rightarrow> Inl e
      | Inr newOpenSeaSales \<Rightarrow>
          (case scan newOpenSeaSales (openSeaSales, False) of
             (openSeaSales', reachedMinBlockNumber) \<Rightarrow>
               (case later of
                  [] \<Rightarrow> Inr openSeaSales'
                | next_events # later' \<Rightarrow>
                    if reachedMinBlockNumber then Inr openSeaSales'
                    else scrollPages convert scan next_events later' openSeaSales')))"

declare scrollPages.simps [simp del]

definition getOpenSeaSalesEvents_1 ::
  "string \<Rightarrow> T_TokenZero \<Rightarrow> nat \<Rightarrow> OS_Event list \<Rightarrow> OS_Event list list \<Rightarrow>
   error + T_OpenSeaSale list" where
  "getOpenSeaSalesEvents_1 collectionSlug tokenZero minBlockNumber asset_events later =
     (if collectionSlug = ''cryptocitizensofficial'' then Inr []
      else scrollPages (openSeaEventModelToSubgraphModel_1 tokenZero collectionSlug)
             (keepFromMinBlock_1 minBlockNumber) asset_events later [])"

definition getOpenSeaSalesEvents_2 ::
  "string \<Rightarrow> T_TokenZero \<Rightarrow> nat \<Rightarrow> OS_Event list \<Rightarrow> OS_Event list list \<Rightarrow>
   error + T_OpenSeaSale list" where
  "getOpenSeaSalesEvents_2 collectionSlug tokenZero minBlockNumber asset_events later =
     (if collectionSlug = ''cryptocitizensofficial'' then Inr []
      else scrollPages (openSeaEventModelToSubgraphModel_2 tokenZero collectionSlug)
             (keepFromMinBlock_2 minBlockNumber) asset_events later [])"

text \<open>
  What the second variant keeps of the converted pages: of each page the sales at or above
  the minimum block, and nothing of the pages after one that held a sale below it.
\<close>

fun keptByFilter :: "nat \<Rightarrow> T_OpenSeaSale list list \<Rightarrow> T_OpenSeaSale list" where
  "keptByFilter minBlockNumber [] = []"
| "keptByFilter minBlockNumber (page # pages) =
     filter (\<lambda>sale. os_blockNumber sale \<ge> minBlockNumber) page
     @ (if list_ex (\<lambda>sale. os_blockNumber sale < minBlockNumber) page then []
        else keptByFilter minBlockNumber pages)"

text \<open>The token ids of the lookup tables of a converted event, or the exception.\<close>

definition keptTokenIds :: "diagnostic list \<times> (error + T_OpenSeaSale) \<Rightarrow> error + string list" where
  "keptTokenIds result =
     map_sum id (\<lambda>sale. map (\<lambda>t. tokenId (os_token t)) (openSeaSaleLookupTables sale))
       (snd result)"

section \<open>Strings and big numbers\<close>

text \<open>
  JavaScript's \<^verbatim>\<open>String.prototype.split\<close> with a string separator and no limit. With a
  non-empty separator the string is scanned from the left; at each match of the separator
  the piece read so far is emitted and the scan resumes after the match; the piece left at
  the end is always emitted. With the empty separator the result is the list of the
  characters.
\<close>

fun split_from :: "string \<Rightarrow> string \<Rightarrow> string \<Rightarrow> string list" where
  "split_from sep piece [] = [piece]"
| "split_from sep piece (c # cs) =
     (if sep \<noteq> [] \<and> prefix sep (c # cs)
      then piece # split_from sep [] (drop (length sep) (c # cs))
      else split_from sep (piece @ [c]) cs)"

definition split :: "string \<Rightarrow> string \<Rightarrow> string list" where
  "split s sep = (if sep = [] then map (\<lambda>c. [c]) s else split_from sep [] s)"

text \<open>
  \<^verbatim>\<open>BigNumber\<close> (ethers) is an integer of any size: \<^verbatim>\<open>add\<close>, \<^verbatim>\<open>sub\<close> and \<^verbatim>\<open>mul\<close> are those
  of \<open>int\<close>. \<^verbatim>\<open>div\<close> truncates toward zero (\<open>sdiv\<close>) and throws on a zero divisor.
  \<^verbatim>\<open>BigNumber.from\<close>, which every operation applies to its argument, throws on \<^verbatim>\<open>undefined\<close>
  (\<open>None\<close>).
\<close>

definition BigNumber_div :: "int \<Rightarrow> int \<Rightarrow> error + int" where
  "BigNumber_div a b = (if b = 0 then Inl DivisionByZero else Inr (a sdiv b))"

definition BigNumber_from :: "int option \<Rightarrow> error + int" where
  "BigNumber_from v = (case v of None \<Rightarrow> Inl InvalidBigNumber | Some n \<Rightarrow> Inr n)"

section \<open>Project reports (\<^verbatim>\<open>types/project_report.ts\<close>)\<close>

text \<open>
  A JavaScript \<^verbatim>\<open>Map\<close> keeps its keys in insertion order: it is an association list, read
  with \<open>map_of\<close> and written with \<open>AList.update\<close> (which replaces the value of a present key
  where it stands and appends an absent one). \<^verbatim>\<open>PaymentTokenVolume\<close> has the total and one
  entry per exchange.
\<close>

record CryptoRepartition =
  toArtist :: int
  toAdditional :: int

record PaymentTokenVolume =
  total :: int
  vol_OSV1 :: int
  vol_OSV2 :: int
  vol_LOOKSRARE :: int

record ProjectReport =
  projectId :: "int option"
  name :: string
  artistAddress :: string
  additionalPayeeAddress :: "string option"
  report_additionalPayeePercentage :: "int option"
  totalSales :: nat
  paymentTokenVolumes :: "(string \<times> PaymentTokenVolume) list"
  cryptoDue :: "(string \<times> CryptoRepartition) list"

text \<open>The constructor. \<^verbatim>\<open>projectId\<close> is \<open>None\<close> when \<^verbatim>\<open>parseInt\<close> gave \<^verbatim>\<open>NaN\<close>.\<close>

definition new_ProjectReport ::
  "int option \<Rightarrow> string \<Rightarrow> string \<Rightarrow> string option \<Rightarrow> int option \<Rightarrow> ProjectReport" where
  "new_ProjectReport pid nm artist payee percentage =
     \<lparr>projectId = pid, name = nm, artistAddress = artist, additionalPayeeAddress = payee,
      report_additionalPayeePercentage = percentage, totalSales = 0,
      paymentTokenVolumes = [], cryptoDue = []\<rparr>"

text \<open>\<^verbatim>\<open>volume[sale.exchange] = volume[sale.exchange].add(...)\<close>\<close>

fun add_to_exchange :: "Exchange \<Rightarrow> int \<Rightarrow> PaymentTokenVolume \<Rightarrow> PaymentTokenVolume" where
  "add_to_exchange OSV1 p volume = volume\<lparr>vol_OSV1 := vol_OSV1 volume + p\<rparr>"
| "add_to_exchange OSV2 p volume = volume\<lparr>vol_OSV2 := vol_OSV2 volume + p\<rparr>"
| "add_to_exchange LOOKSRARE p volume = volume\<lparr>vol_LOOKSRARE := vol_LOOKSRARE volume + p\<rparr>"

text \<open>
  \<^verbatim>\<open>ProjectReport.addSale\<close>. \<^verbatim>\<open>addressToPaymentToken\<close> (\<^verbatim>\<open>utils/token_conversion.ts\<close>, not
  among the sources) is a parameter: a lookup that throws on an address it does not list
  (\<open>None\<close>).
\<close>

definition addSale ::
  "(string \<Rightarrow> string option) \<Rightarrow> T_Sale \<Rightarrow> nat \<Rightarrow> ProjectReport \<Rightarrow> error + ProjectReport" where
  "addSale addressToPaymentToken sale nbTokensSold r =
     (case BigNumber_div (price sale) (int nbTokensSold) of
        Inl e \<Rightarrow> Inl e
      | Inr priceAttributedToProject \<Rightarrow>
          (case addressToPaymentToken (paymentToken sale) of
             None \<Rightarrow> Inl UnknownPaymentToken
           | Some cryptoName \<Rightarrow>
               (let volume = (case map_of (paymentTokenVolumes r) cryptoName of
                                None \<Rightarrow> \<lparr>total = 0, vol_OSV1 = 0, vol_OSV2 = 0, vol_LOOKSRARE = 0\<rparr>
                              | Some v \<Rightarrow> v);
                    volume1 = volume\<lparr>total := total volume + priceAttributedToProject\<rparr>;
                    volume2 = add_to_exchange (exchange sale) priceAttributedToProject volume1
                in Inr (r\<lparr>totalSales := totalSales r + 1,
                          paymentTokenVolumes :=
                            AList.update cryptoName volume2 (paymentTokenVolumes r)\<rparr>))))"

text \<open>
  \<^verbatim>\<open>ProjectReport.computeCryptoDue(looksRareFeesPercentage)\<close>: the loop over the keys of
  \<^verbatim>\<open>paymentTokenVolumes\<close>. The argument is an option because JavaScript binds the parameter
  of a call that passes no argument to \<^verbatim>\<open>undefined\<close>; \<^verbatim>\<open>mul\<close> then throws.
\<close>

definition openseaFeesPercentage :: int where
  "openseaFeesPercentage = 5"

definition globalDue :: "int \<Rightarrow> PaymentTokenVolume \<Rightarrow> int" where
  "globalDue looksRareFeesPercentage volumeTotal =
     (let volumeOpensea = vol_OSV1 volumeTotal + vol_OSV2 volumeTotal;
          volumeLoooksRare = vol_LOOKSRARE volumeTotal
      in (volumeOpensea * openseaFeesPercentage) sdiv 100
         + (volumeLoooksRare * looksRareFeesPercentage) sdiv 100)"

fun computeCryptoDue_loop ::
  "int option \<Rightarrow> ProjectReport \<Rightarrow> string list \<Rightarrow> error + ProjectReport" where
  "computeCryptoDue_loop looksRareFeesPercentage r [] = Inr r"
| "computeCryptoDue_loop looksRareFeesPercentage r (crypto # keys) =
     (case map_of (paymentTokenVolumes r) crypto of
        None \<Rightarrow> Inl TypeError
      | Some volumeTotal \<Rightarrow>
          (case BigNumber_from looksRareFeesPercentage of
             Inl e \<Rightarrow> Inl e
           | Inr fee \<Rightarrow>
               (let due = globalDue fee volumeTotal;
                    toAdditionalPayee =
                      (case report_additionalPayeePercentage r of
                         Some percentage \<Rightarrow> (due * percentage) sdiv 100
                       | None \<Rightarrow> 0);
                    dueToArtist = due - toAdditionalPayee
                in computeCryptoDue_loop looksRareFeesPercentage
                     (r\<lparr>cryptoDue :=
                          AList.update crypto
                            \<lparr>toArtist = dueToArtist, toAdditional = toAdditionalPayee\<rparr>
                            (cryptoDue r)\<rparr>)
                     keys)))"

definition computeCryptoDue :: "int option \<Rightarrow> ProjectReport \<Rightarrow> error + ProjectReport" where
  "computeCryptoDue looksRareFeesPercentage r =
     computeCryptoDue_loop looksRareFeesPercentage r (map fst (paymentTokenVolumes r))"

text \<open>
  What one turn of the loop of \<^verbatim>\<open>computeCryptoDue\<close> stores for a payment token, as a
  function of the report's additional-payee percentage and of the royalty due.
\<close>

definition repartition :: "int option \<Rightarrow> int \<Rightarrow> CryptoRepartition" where
  "repartition percentage due =
     (let toAdditionalPayee =
            (case percentage of Some p \<Rightarrow> (due * p) sdiv 100 | None \<Rightarrow> 0)
      in \<lparr>toArtist = due - toAdditionalPayee, toAdditional = toAdditionalPayee\<rparr>)"

section \<open>Aggregation (\<^verbatim>\<open>SalesService.generateProjectReports\<close>)\<close>

text \<open>
  The per-token count of a sale: \<^verbatim>\<open>sale.summaryTokensSold.split("::").length\<close>.
\<close>

definition nbTokensSold :: "T_Sale \<Rightarrow> nat" where
  "nbTokensSold sale = length (split (summaryTokensSold sale) ''::'')"

text \<open>
  The inner loop, over the lookup tables of one sale: get or create the report of the
  token's project, add the sale to it, store it under the project's name. JavaScript's
  \<^verbatim>\<open>parseInt\<close> is a parameter (\<open>None\<close> for \<^verbatim>\<open>NaN\<close>).
\<close>

fun browseLookupTables ::
  "(string \<Rightarrow> string option) \<Rightarrow> (string \<Rightarrow> int option) \<Rightarrow> T_Sale \<Rightarrow> nat \<Rightarrow>
   T_SaleLookupTable list \<Rightarrow> (string \<times> ProjectReport) list \<Rightarrow>
   error + (string \<times> ProjectReport) list" where
  "browseLookupTables addressToPaymentToken parseInt sale nb [] projectReports =
     Inr projectReports"
| "browseLookupTables addressToPaymentToken parseInt sale nb (tokenSaleLookupTable # rest)
     projectReports =
     (let prj = project (token tokenSaleLookupTable);
          projectReport =
            (case map_of projectReports (project_name prj) of
               None \<Rightarrow> new_ProjectReport (parseInt (project_id prj)) (project_name prj)
                         (project_artistAddress prj) (additionalPayee prj)
                         (additionalPayeePercentage prj)
             | Some r \<Rightarrow> r)
      in case addSale addressToPaymentToken sale nb projectReport of
           Inl e \<Rightarrow> Inl e
         | Inr projectReport' \<Rightarrow>
             browseLookupTables addressToPaymentToken parseInt sale nb rest
               (AList.update (project_name prj) projectReport' projectReports))"

text \<open>The outer loop, over the sales.\<close>

fun browseSales ::
  "(string \<Rightarrow> string option) \<Rightarrow> (string \<Rightarrow> int option) \<Rightarrow> T_Sale list \<Rightarrow>
   (string \<times> ProjectReport) list \<Rightarrow> error + (string \<times> ProjectReport) list" where
  "browseSales addressToPaymentToken parseInt [] projectReports = Inr projectReports"
| "browseSales addressToPaymentToken parseInt (sale # sales) projectReports =
     (case browseLookupTables addressToPaymentToken parseInt sale (nbTokensSold sale)
             (saleLookupTables sale) projectReports of
        Inl e \<Rightarrow> Inl e
      | Inr projectReports' \<Rightarrow> browseSales addressToPaymentToken parseInt sales projectReports')"

text \<open>
  The closing loop, over the keys of the reports. The source calls
  \<^verbatim>\<open>projectReport.computeCryptoDue()\<close> with no argument.
\<close>

fun computeAllCryptoDue ::
  "string list \<Rightarrow> (string \<times> ProjectReport) list \<Rightarrow> error + (string \<times> ProjectReport) list" where
  "computeAllCryptoDue [] projectReports = Inr projectReports"
| "computeAllCryptoDue (projectName # keys) projectReports =
     (case map_of projectReports projectName of
        None \<Rightarrow> Inl TypeError
      | Some projectReport \<Rightarrow>
          (case computeCryptoDue None projectReport of
             Inl e \<Rightarrow> Inl e
           | Inr projectReport' \<Rightarrow>
               computeAllCryptoDue keys (AList.update projectName projectReport' projectReports)))"

definition generateProjectReports ::
  "(string \<Rightarrow> string option) \<Rightarrow> (string \<Rightarrow> int option) \<Rightarrow> T_Sale list \<Rightarrow>
   error + (string \<times> ProjectReport) list" where
  "generateProjectReports addressToPaymentToken parseInt sales =
     (case browseSales addressToPaymentToken parseInt sales [] of
        Inl e \<Rightarrow> Inl e
      | Inr projectReports \<Rightarrow> computeAllCryptoDue (map fst projectReports) projectReports)"

section \<open>Reading the reports\<close>

text \<open>
  Observations on a finished map of reports, used to state what the aggregation computes.
  An entry of a \<^verbatim>\<open>PaymentTokenVolume\<close> is selected by \<open>None\<close> (the total) or by an exchange.
  A project without report, or a report without volume for a payment token, counts as 0.
\<close>

fun volume_entry :: "Exchange option \<Rightarrow> PaymentTokenVolume \<Rightarrow> int" where
  "volume_entry None v = total v"
| "volume_entry (Some OSV1) v = vol_OSV1 v"
| "volume_entry (Some OSV2) v = vol_OSV2 v"
| "volume_entry (Some LOOKSRARE) v = vol_LOOKSRARE v"

definition volumeOf :: "Exchange option \<Rightarrow> string \<Rightarrow> ProjectReport \<Rightarrow> int" where
  "volumeOf sel crypto r =
     (case map_of (paymentTokenVolumes r) crypto of None \<Rightarrow> 0 | Some v \<Rightarrow> volume_entry sel v)"

definition volumeAt ::
  "Exchange option \<Rightarrow> string \<Rightarrow> string \<Rightarrow> (string \<times> ProjectReport) list \<Rightarrow> int" where
  "volumeAt sel projectName crypto projectReports =
     (case map_of projectReports projectName of
        None \<Rightarrow> 0
      | Some r \<Rightarrow> volumeOf sel crypto r)"

definition sumTotalSales :: "(string \<times> ProjectReport) list \<Rightarrow> nat" where
  "sumTotalSales projectReports = sum_list (map (\<lambda>entry. totalSales (snd entry)) projectReports)"

text \<open>The surviving lookup tables of a sale that belong to a project, by the project's name.\<close>

definition tokensOfProject :: "string \<Rightarrow> T_Sale \<Rightarrow> nat" where
  "tokensOfProject projectName sale =
     length (filter (\<lambda>t. project_name (project (token t)) = projectName)
                    (saleLookupTables sale))"

text \<open>
  In the spec's words, the per-token count of a sale is the cardinality of its summary
  encoding: the summary string holds the ids of the tokens sold, joined by \<^verbatim>\<open>"::"\<close>. These
  definitions do not use the model of \<^verbatim>\<open>split\<close>: \<open>separatorCount\<close> counts the separators of a
  string, read from the left, a separator never sharing a colon with the next one, and the
  cardinality is one more.
\<close>

fun separatorCount :: "string \<Rightarrow> nat" where
  "separatorCount (c # d # rest) =
     (if c = CHR '':'' \<and> d = CHR '':'' then Suc (separatorCount rest)
      else separatorCount (d # rest))"
| "separatorCount [c] = 0"
| "separatorCount [] = 0"

definition encodedTokenCount :: "string \<Rightarrow> nat" where
  "encodedTokenCount summary = Suc (separatorCount summary)"

fun joinTokens :: "string list \<Rightarrow> string" where
  "joinTokens [] = []"
| "joinTokens [t] = t"
| "joinTokens (t # u # ts) = t @ ''::'' @ joinTokens (u # ts)"

text \<open>
  A sale counts for an entry of a volume for a payment token when it was paid in that token
  and, for an exchange's entry, made on that exchange.
\<close>

definition counts_for :: "(string \<Rightarrow> string option) \<Rightarrow> Exchange option \<Rightarrow> string \<Rightarrow> T_Sale \<Rightarrow> bool" where
  "counts_for addressToPaymentToken sel crypto sale =
     (addressToPaymentToken (paymentToken sale) = Some crypto
      \<and> (sel = None \<or> sel = Some (exchange sale)))"

definition hasSurvivingLookup :: "T_Sale \<Rightarrow> bool" where
  "hasSurvivingLookup sale = (length (saleLookupTables sale) \<ge> 1)"

text \<open>The names of the projects among the surviving lookup tables of a sale.\<close>

definition projectsOf :: "T_Sale \<Rightarrow> string list" where
  "projectsOf sale = remdups (map (\<lambda>t. project_name (project (token t))) (saleLookupTables sale))"

definition spansSeveralProjects :: "T_Sale \<Rightarrow> bool" where
  "spansSeveralProjects sale = (length (projectsOf sale) > 1)"

text \<open>Every sale that reaches \<^verbatim>\<open>addSale\<close> is paid in a token the lookup lists.\<close>

definition paymentTokensKnown :: "(string \<Rightarrow> string option) \<Rightarrow> T_Sale list \<Rightarrow> bool" where
  "paymentTokensKnown addressToPaymentToken sales =
     list_all (\<lambda>sale. saleLookupTables sale = [] \<or> addressToPaymentToken (paymentToken sale) \<noteq> None)
              sales"

section \<open>Fixtures\<close>

definition project0 :: T_Project where
  "project0 = \<lparr>project_id = ''23'', project_name = ''Archetype'',
     project_artistAddress = ''0xa1'', curationStatus = curated,
     additionalPayee = Some ''0xb2'', additionalPayeePercentage = Some 20\<rparr>"

definition token0 :: T_Token where
  "token0 = \<lparr>token_id = ''c0-23000001'', contract = \<lparr>contract_id = ''c0''\<rparr>,
     project = project0\<rparr>"

definition lookup0 :: T_SaleLookupTable where
  "lookup0 = \<lparr>lookup_id = ''23::c0-23000001::s0'', token = token0\<rparr>"

definition sale0 :: T_Sale where
  "sale0 = \<lparr>sale_id = ''s0'', exchange = OSV2, saleType = Single, blockNumber = 100,
     blockTimestamp = ''1650000000'', seller = ''0x01'', buyer = ''0x02'',
     paymentToken = ''0x00'', price = 100, isPrivate = True,
     summaryTokensSold = ''c0-23000001'', saleLookupTables = [lookup0], fees = 0\<rparr>"

definition volume0 :: PaymentTokenVolume where
  "volume0 = \<lparr>total = 20000, vol_OSV1 = 12000, vol_OSV2 = 8000, vol_LOOKSRARE = 0\<rparr>"

definition report0 :: ProjectReport where
  "report0 = \<lparr>projectId = Some 23, name = ''Archetype'', artistAddress = ''0xa1'',
     additionalPayeeAddress = Some ''0xb2'', report_additionalPayeePercentage = Some 20,
     totalSales = 4, paymentTokenVolumes = [(''ETH'', volume0)], cryptoDue = []\<rparr>"

definition addressToPaymentToken0 :: "string \<Rightarrow> string option" where
  "addressToPaymentToken0 a = (if a = ''0x00'' then Some ''ETH'' else None)"

definition parseInt0 :: "string \<Rightarrow> int option" where
  "parseInt0 s = (if s = ''23'' then Some 23 else None)"

definition lookup1 :: T_SaleLookupTable where
  "lookup1 = \<lparr>lookup_id = ''23::c0-23000002::s0'',
     token = token0\<lparr>token_id := ''c0-23000002''\<rparr>\<rparr>"

definition lookup2 :: T_SaleLookupTable where
  "lookup2 = \<lparr>lookup_id = ''23::c0-23000003::s0'',
     token = token0\<lparr>token_id := ''c0-23000003''\<rparr>\<rparr>"

text \<open>A bundle of three tokens of one project, sold for 100.\<close>

definition bundle3 :: T_Sale where
  "bundle3 = sale0\<lparr>sale_id := ''s3'', saleType := Bundle, isPrivate := False,
     summaryTokensSold := ''c0-23000001::c0-23000002::c0-23000003'',
     saleLookupTables := [lookup0, lookup1, lookup2]\<rparr>"

text \<open>A bundle of two tokens of one project.\<close>

definition bundle2 :: T_Sale where
  "bundle2 = sale0\<lparr>sale_id := ''s2'', saleType := Bundle, isPrivate := False,
     summaryTokensSold := ''c0-23000001::c0-23000002'',
     saleLookupTables := [lookup0, lookup1]\<rparr>"

text \<open>A single-token sale on LooksRare.\<close>

definition saleLR :: T_Sale where
  "saleLR = sale0\<lparr>sale_id := ''s4'', exchange := LOOKSRARE, isPrivate := False\<rparr>"

definition tokenZero0 :: T_TokenZero where
  "tokenZero0 = \<lparr>tokens = [token0]\<rparr>"

definition event0 :: OS_Event where
  "event0 = \<lparr>event_id = ''e0'',
     payload = Asset \<lparr>asset_token_id = ''23000001'', collection_slug = ''archetype''\<rparr>,
     block_number = 10, timestamp = ''2022-04-15T00:00:00'', to_account_address = ''0x01'',
     transaction_hash = ''0xh0'', winner_account_address = ''0x02'',
     payment_token_address = ''0x00'', total_price = 100, is_private = False\<rparr>"

text \<open>
  A page with events at blocks 10, 3 and 8, in that order, and the page after it, with an
  event at block 9.
\<close>

definition eventsPage0 :: "OS_Event list" where
  "eventsPage0 = [event0, event0\<lparr>block_number := 3\<rparr>, event0\<lparr>block_number := 8\<rparr>]"

definition eventsPage1 :: "OS_Event list" where
  "eventsPage1 = [event0\<lparr>block_number := 9\<rparr>]"

text \<open>
  A bundle of two assets of another collection, and a page that holds it. The second variant
  of the importer throws on it.
\<close>

definition foreignBundle :: OS_Event where
  "foreignBundle = event0\<lparr>event_id := ''e3'', block_number := 3,
     payload := Asset_bundle
       [\<lparr>asset_token_id = ''7'', collection_slug = ''cryptopunks''\<rparr>,
        \<lparr>asset_token_id = ''8'', collection_slug = ''cryptopunks''\<rparr>]\<rparr>"

definition eventsPageForeign :: "OS_Event list" where
  "eventsPageForeign = [foreignBundle]"

text \<open>A bundle of one asset of the requested collection and one of another.\<close>

definition mixedBundle :: OS_Event where
  "mixedBundle = event0\<lparr>event_id := ''e1'',
     payload := Asset_bundle
       [\<lparr>asset_token_id = ''23000001'', collection_slug = ''archetype''\<rparr>,
        \<lparr>asset_token_id = ''7'', collection_slug = ''cryptopunks''\<rparr>]\<rparr>"

text \<open>A bundle of two assets filed under a slug that contains the requested one.\<close>

definition similarBundle :: OS_Event where
  "similarBundle = event0\<lparr>event_id := ''e2'',
     payload := Asset_bundle
       [\<lparr>asset_token_id = ''23000001'', collection_slug = ''archetype-v2''\<rparr>,
        \<lparr>asset_token_id = ''23000002'', collection_slug = ''archetype-v2''\<rparr>]\<rparr>"

text \<open>
  A subgraph with 999 sales at block 100, two at block 101 and one at block 99: the range
  from 100 to 102 holds 1001 sales, so its first page of 1000 is full.
\<close>

definition saleAt :: "nat \<Rightarrow> T_Sale" where
  "saleAt b = sale0\<lparr>blockNumber := b\<rparr>"

definition fullPageSubgraph :: "T_Sale list" where
  "fullPageSubgraph = replicate 999 (saleAt 100) @ replicate 2 (saleAt 101) @ [saleAt 99]"

section \<open>Properties of the sale filter\<close>

lemma saleHasRoyalties_narrowSale:
  "saleHasRoyalties n (narrowSale salesFilter sale) = saleHasRoyalties n sale"
  by (simp add: saleHasRoyalties_def narrowSale_def)

text \<open>
  Claim C7. A sale passes the royalty-eligibility filter exactly when it is not private, or
  it is private and its block number is at or after the threshold. A private sale one block
  before the threshold is dropped and one at the threshold is kept. The predicate reads only
  the private flag and the block number: two sales that agree on both get the same verdict,
  and in \<^verbatim>\<open>processSales\<close> the verdict is that of the original sale, whatever the curation and
  contract filters removed from its lookup tables.
\<close>

theorem saleHasRoyalties_iff:
  "(saleHasRoyalties n sale \<longleftrightarrow> \<not> isPrivate sale \<or> (isPrivate sale \<and> n \<le> blockNumber sale))
   \<and> (isPrivate sale \<and> blockNumber sale + 1 = n \<longrightarrow> \<not> saleHasRoyalties n sale)
   \<and> (isPrivate sale \<and> blockNumber sale = n \<longrightarrow> saleHasRoyalties n sale)
   \<and> (isPrivate sale = isPrivate sale' \<and> blockNumber sale = blockNumber sale'
        \<longrightarrow> saleHasRoyalties n sale = saleHasRoyalties n sale')
   \<and> processSales_filtered n salesFilter sales =
       filterMatchingSales salesFilter (filter (saleHasRoyalties n) sales)"
proof -
  have "filter (saleHasRoyalties n) (map (narrowSale salesFilter) sales) =
        map (narrowSale salesFilter) (filter (saleHasRoyalties n) sales)"
    by (induction sales) (simp_all add: saleHasRoyalties_narrowSale)
  then have "processSales_filtered n salesFilter sales =
       filterMatchingSales salesFilter (filter (saleHasRoyalties n) sales)"
    unfolding processSales_filtered_def filterMatchingSales_def
    by (metis (no_types, lifting) filter_cong filter_filter)
  then show ?thesis
    by (auto simp: saleHasRoyalties_def)
qed

theorem saleHasRoyalties_iff_witness:
  "isPrivate (sale0\<lparr>blockNumber := 99\<rparr>) \<and> blockNumber (sale0\<lparr>blockNumber := 99\<rparr>) + 1 = 100
   \<and> \<not> saleHasRoyalties 100 (sale0\<lparr>blockNumber := 99\<rparr>)
   \<and> isPrivate sale0 \<and> blockNumber sale0 = 100 \<and> saleHasRoyalties 100 sale0
   \<and> processSales_filtered 100 \<lparr>collectionFilter = Some curated, contractFilter = None\<rparr>
        [sale0\<lparr>blockNumber := 99\<rparr>, sale0] = [sale0]"
proof -
  have a: "isPrivate (sale0\<lparr>blockNumber := 99\<rparr>) \<and> blockNumber (sale0\<lparr>blockNumber := 99\<rparr>) + 1 = 100"
    by (simp add: sale0_def)
  have b: "isPrivate sale0 \<and> blockNumber sale0 = 100"
    by (simp add: sale0_def)
  have c: "filterMatchingSales \<lparr>collectionFilter = Some curated, contractFilter = None\<rparr> [sale0]
           = [sale0]"
    by (simp add: filterMatchingSales_def narrowSale_def curationFilterPass_def
        contractsFilterPass_def sale0_def lookup0_def token0_def project0_def)
  from a b c
    saleHasRoyalties_iff [of 100 "sale0\<lparr>blockNumber := 99\<rparr>" sale0
      "\<lparr>collectionFilter = Some curated, contractFilter = None\<rparr>" "[sale0\<lparr>blockNumber := 99\<rparr>, sale0]"]
    saleHasRoyalties_iff [of 100 sale0 sale0
      "\<lparr>collectionFilter = Some curated, contractFilter = None\<rparr>" "[]"]
  show ?thesis by simp
qed

section \<open>Properties of the aggregation\<close>

subsection \<open>The per-token count is never zero\<close>

lemma split_from_length: "1 \<le> length (split_from sep piece s)"
  by (induction sep piece s rule: split_from.induct) auto

lemma nbTokensSold_pos: "1 \<le> nbTokensSold sale"
  using split_from_length [of "''::''" "[]" "summaryTokensSold sale"]
  by (simp add: nbTokensSold_def split_def)

lemma addSale_no_div0:
  "0 < nb \<Longrightarrow> addSale a2p sale nb r \<noteq> Inl DivisionByZero"
  by (auto simp: addSale_def BigNumber_div_def Let_def split: option.splits)

lemma browseLookupTables_no_div0:
  "0 < nb \<Longrightarrow> browseLookupTables a2p pI sale nb ts reports \<noteq> Inl DivisionByZero"
proof (induction ts arbitrary: reports)
  case Nil
  then show ?case by simp
next
  case (Cons t ts)
  then show ?case
    using addSale_no_div0 [OF Cons.prems]
    by (auto simp: Let_def split: sum.splits)
qed

lemma browseSales_no_div0:
  "browseSales a2p pI sales reports \<noteq> Inl DivisionByZero"
proof (induction sales arbitrary: reports)
  case Nil
  then show ?case by simp
next
  case (Cons s sales)
  have "0 < nbTokensSold s" using nbTokensSold_pos [of s] by simp
  from browseLookupTables_no_div0 [OF this] Cons.IH show ?case
    by (auto split: sum.splits)
qed

lemma computeCryptoDue_loop_no_div0:
  "computeCryptoDue_loop fee r keys \<noteq> Inl DivisionByZero"
  by (induction keys arbitrary: r)
     (auto simp: Let_def BigNumber_from_def split: option.splits sum.splits)

lemma computeAllCryptoDue_no_div0:
  "computeAllCryptoDue keys reports \<noteq> Inl DivisionByZero"
  by (induction keys arbitrary: reports)
     (auto simp: computeCryptoDue_def computeCryptoDue_loop_no_div0 split: option.splits sum.splits)

text \<open>
  Claim C10. Whatever the summary string of a sale, the empty string included, its
  \<^verbatim>\<open>split("::").length\<close> is at least 1 (exactly 1 for the empty string), so the division of
  the price by that count in \<^verbatim>\<open>addSale\<close> returns the truncated quotient, and neither the
  loop over the sales nor \<^verbatim>\<open>generateProjectReports\<close> as a whole ever ends in a division by
  zero.
\<close>

theorem nbTokensSold_at_least_one:
  "1 \<le> nbTokensSold sale
   \<and> nbTokensSold (sale\<lparr>summaryTokensSold := ''''\<rparr>) = 1
   \<and> BigNumber_div (price sale) (int (nbTokensSold sale))
       = Inr (price sale sdiv int (nbTokensSold sale))
   \<and> browseSales a2p pI sales reports \<noteq> Inl DivisionByZero
   \<and> generateProjectReports a2p pI sales \<noteq> Inl DivisionByZero"
proof -
  have "0 < nbTokensSold sale" using nbTokensSold_pos [of sale] by simp
  moreover have "nbTokensSold (sale\<lparr>summaryTokensSold := ''''\<rparr>) = 1"
    by (simp add: nbTokensSold_def split_def)
  moreover have "generateProjectReports a2p pI sales \<noteq> Inl DivisionByZero"
    using browseSales_no_div0 computeAllCryptoDue_no_div0
    by (auto simp: generateProjectReports_def split: sum.splits)
  ultimately show ?thesis
    using browseSales_no_div0 by (simp add: BigNumber_div_def)
qed

theorem nbTokensSold_at_least_one_witness:
  "nbTokensSold (sale0\<lparr>summaryTokensSold := ''''\<rparr>) = 1
   \<and> nbTokensSold bundle3 = 3
   \<and> BigNumber_div (price bundle3) (int (nbTokensSold bundle3)) = Inr 33
   \<and> generateProjectReports addressToPaymentToken0 parseInt0 [bundle3] \<noteq> Inl DivisionByZero"
proof -
  have nb: "nbTokensSold bundle3 = 3"
    by (simp add: nbTokensSold_def split_def bundle3_def sale0_def)
  have pr: "price bundle3 = 100" by (simp add: bundle3_def sale0_def)
  from nbTokensSold_at_least_one [of sale0 addressToPaymentToken0 parseInt0 "[bundle3]" "[]"]
       nbTokensSold_at_least_one [of bundle3 addressToPaymentToken0 parseInt0 "[bundle3]" "[]"]
  show ?thesis
    by (simp add: nb pr signed_divide_int_def)
qed

subsection \<open>The split of the royalty between artist and additional payee\<close>

lemma sdiv_percent_bounds:
  assumes "0 \<le> g" "0 \<le> p" "p \<le> 100"
  shows "0 \<le> (g * p) sdiv 100 \<and> (g * p) sdiv 100 \<le> (g::int)"
proof -
  have eq: "(g * p) sdiv 100 = (g * p) div 100"
    using assms by (simp add: signed_divide_int_def sgn_if zero_le_mult_iff abs_mult)
  have "g * p \<le> g * 100" using assms by (simp add: mult_left_mono)
  then have "(g * p) div 100 \<le> g" by simp
  moreover have "0 \<le> (g * p) div 100" using assms by (simp add: pos_imp_zdiv_nonneg_iff)
  ultimately show ?thesis using eq by simp
qed

lemma computeCryptoDue_loop_Some:
  "set keys \<subseteq> dom (map_of (paymentTokenVolumes r)) \<Longrightarrow>
   \<exists>due'. computeCryptoDue_loop (Some fee) r keys = Inr (r\<lparr>cryptoDue := due'\<rparr>)
     \<and> (\<forall>c. map_of due' c =
          (if c \<in> set keys
           then Some (repartition (report_additionalPayeePercentage r)
                        (globalDue fee (the (map_of (paymentTokenVolumes r) c))))
           else map_of (cryptoDue r) c))"
proof (induction keys arbitrary: r)
  case Nil
  show ?case by (auto intro: exI [of _ "cryptoDue r"])
next
  case (Cons k keys)
  from Cons.prems obtain v where v: "map_of (paymentTokenVolumes r) k = Some v" by auto
  let ?d = "repartition (report_additionalPayeePercentage r) (globalDue fee v)"
  let ?r = "r\<lparr>cryptoDue := AList.update k ?d (cryptoDue r)\<rparr>"
  have step: "computeCryptoDue_loop (Some fee) r (k # keys) = computeCryptoDue_loop (Some fee) ?r keys"
    using v by (simp add: BigNumber_from_def repartition_def Let_def)
  have "set keys \<subseteq> dom (map_of (paymentTokenVolumes ?r))" using Cons.prems by simp
  from Cons.IH [OF this] obtain due' where
    d: "computeCryptoDue_loop (Some fee) ?r keys = Inr (?r\<lparr>cryptoDue := due'\<rparr>)"
    and m: "\<forall>c. map_of due' c =
          (if c \<in> set keys
           then Some (repartition (report_additionalPayeePercentage ?r)
                        (globalDue fee (the (map_of (paymentTokenVolumes ?r) c))))
           else map_of (cryptoDue ?r) c)" by blast
  have "computeCryptoDue_loop (Some fee) r (k # keys) = Inr (r\<lparr>cryptoDue := due'\<rparr>)"
    using step d by simp
  moreover have "\<forall>c. map_of due' c =
          (if c \<in> set (k # keys)
           then Some (repartition (report_additionalPayeePercentage r)
                        (globalDue fee (the (map_of (paymentTokenVolumes r) c))))
           else map_of (cryptoDue r) c)"
    using m v by (auto simp: update_conv')
  ultimately show ?case by blast
qed

lemma computeCryptoDue_Some:
  "\<exists>due'. computeCryptoDue (Some fee) r = Inr (r\<lparr>cryptoDue := due'\<rparr>)
     \<and> (\<forall>c v. map_of (paymentTokenVolumes r) c = Some v \<longrightarrow>
           map_of due' c = Some (repartition (report_additionalPayeePercentage r) (globalDue fee v)))"
proof -
  have sub: "set (map fst (paymentTokenVolumes r)) \<subseteq> dom (map_of (paymentTokenVolumes r))"
    by (simp add: dom_map_of_conv_image_fst)
  from computeCryptoDue_loop_Some [OF sub, of fee] obtain due' where
    d: "computeCryptoDue (Some fee) r = Inr (r\<lparr>cryptoDue := due'\<rparr>)"
    and m: "\<forall>c. map_of due' c =
          (if c \<in> set (map fst (paymentTokenVolumes r))
           then Some (repartition (report_additionalPayeePercentage r)
                        (globalDue fee (the (map_of (paymentTokenVolumes r) c))))
           else map_of (cryptoDue r) c)"
    unfolding computeCryptoDue_def by blast
  have "\<forall>c v. map_of (paymentTokenVolumes r) c = Some v \<longrightarrow>
           map_of due' c = Some (repartition (report_additionalPayeePercentage r) (globalDue fee v))"
  proof (intro allI impI)
    fix c v assume v: "map_of (paymentTokenVolumes r) c = Some v"
    then have "c \<in> set (map fst (paymentTokenVolumes r))"
      by (metis domI dom_map_of_conv_image_fst set_map)
    with m v show "map_of due' c = Some (repartition (report_additionalPayeePercentage r) (globalDue fee v))"
      by simp
  qed
  with d show ?thesis by blast
qed

text \<open>
  Claim C3. \<^verbatim>\<open>computeCryptoDue\<close>, given a fee percentage, returns, and for every payment
  token of the report it stores an artist amount and an additional-payee amount whose sum is
  exactly the royalty due for that token: the artist amount is the royalty due minus the
  additional-payee amount. The additional-payee amount is 0 when the report has no
  additional-payee percentage, and the truncated \<open>due * percentage / 100\<close> otherwise. When the
  royalty due is not negative and the percentage lies between 0 and 100, neither amount is
  negative. The witness is the case of a royalty due of 1000 with a percentage of 20: 800 and
  200.
\<close>

theorem computeCryptoDue_exact_split:
  assumes "map_of (paymentTokenVolumes r) crypto = Some volumeTotal"
  shows "\<exists>r' d. computeCryptoDue (Some fee) r = Inr r'
     \<and> map_of (cryptoDue r') crypto = Some d
     \<and> toArtist d + toAdditional d = globalDue fee volumeTotal
     \<and> toArtist d = globalDue fee volumeTotal - toAdditional d
     \<and> (report_additionalPayeePercentage r = None \<longrightarrow> toAdditional d = 0)
     \<and> (\<forall>p. report_additionalPayeePercentage r = Some p \<longrightarrow>
            toAdditional d = (globalDue fee volumeTotal * p) sdiv 100)
     \<and> (0 \<le> globalDue fee volumeTotal
          \<and> (\<forall>p. report_additionalPayeePercentage r = Some p \<longrightarrow> 0 \<le> p \<and> p \<le> 100)
          \<longrightarrow> 0 \<le> toArtist d \<and> 0 \<le> toAdditional d)"
proof -
  let ?g = "globalDue fee volumeTotal"
  let ?d = "repartition (report_additionalPayeePercentage r) ?g"
  from computeCryptoDue_Some [of fee r] assms obtain due' where
    d: "computeCryptoDue (Some fee) r = Inr (r\<lparr>cryptoDue := due'\<rparr>)"
    and m: "map_of due' crypto = Some ?d" by blast
  have 1: "toArtist ?d + toAdditional ?d = ?g" "toArtist ?d = ?g - toAdditional ?d"
    by (simp_all add: repartition_def Let_def)
  have 2: "report_additionalPayeePercentage r = None \<longrightarrow> toAdditional ?d = 0"
    by (simp add: repartition_def Let_def)
  have 3: "\<forall>p. report_additionalPayeePercentage r = Some p \<longrightarrow> toAdditional ?d = (?g * p) sdiv 100"
    by (simp add: repartition_def Let_def)
  have 4: "0 \<le> ?g \<and> (\<forall>p. report_additionalPayeePercentage r = Some p \<longrightarrow> 0 \<le> p \<and> p \<le> 100)
          \<longrightarrow> 0 \<le> toArtist ?d \<and> 0 \<le> toAdditional ?d"
  proof (cases "report_additionalPayeePercentage r")
    case None
    then show ?thesis by (simp add: repartition_def Let_def)
  next
    case (Some p)
    show ?thesis
    proof
      assume h: "0 \<le> ?g \<and> (\<forall>p. report_additionalPayeePercentage r = Some p \<longrightarrow> 0 \<le> p \<and> p \<le> 100)"
      with Some have "0 \<le> p" "p \<le> 100" "0 \<le> ?g" by auto
      from sdiv_percent_bounds [OF this(3) this(1) this(2)] Some
      show "0 \<le> toArtist ?d \<and> 0 \<le> toAdditional ?d"
        by (simp add: repartition_def Let_def)
    qed
  qed
  have 5: "map_of (cryptoDue (r\<lparr>cryptoDue := due'\<rparr>)) crypto = Some ?d" using m by simp
  show ?thesis
    apply (rule exI [of _ "r\<lparr>cryptoDue := due'\<rparr>"])
    apply (rule exI [of _ ?d])
    apply (insert d 1 2 3 4 5)
    apply (intro conjI)
          apply assumption+
    done
qed

theorem computeCryptoDue_exact_split_witness:
  "map_of (paymentTokenVolumes report0) ''ETH'' = Some volume0
   \<and> globalDue 2 volume0 = 1000
   \<and> report_additionalPayeePercentage report0 = Some 20
   \<and> computeCryptoDue (Some 2) report0 =
       Inr (report0\<lparr>cryptoDue := [(''ETH'', \<lparr>toArtist = 800, toAdditional = 200\<rparr>)]\<rparr>)
   \<and> (800::int) + 200 = 1000"
proof -
  have h: "map_of (paymentTokenVolumes report0) ''ETH'' = Some volume0"
    by (simp add: report0_def)
  have g: "globalDue 2 volume0 = 1000"
    by (simp add: globalDue_def volume0_def openseaFeesPercentage_def signed_divide_int_def)
  have c: "computeCryptoDue (Some 2) report0 =
       Inr (report0\<lparr>cryptoDue := [(''ETH'', \<lparr>toArtist = 800, toAdditional = 200\<rparr>)]\<rparr>)"
    by (simp add: computeCryptoDue_def report0_def BigNumber_from_def g signed_divide_int_def)
  from computeCryptoDue_exact_split [OF h, of 2] h g c show ?thesis
    by (simp add: report0_def)
qed

subsection \<open>What the loops over sales and lookup tables add to the reports\<close>

lemma volume_entry_add:
  "volume_entry sel (add_to_exchange ex p (v\<lparr>total := total v + p\<rparr>)) =
     volume_entry sel v + (if sel = None \<or> sel = Some ex then p else 0)"
  by (cases sel; cases ex; (cases "the sel")?) auto

lemma addSale_effect:
  assumes "addSale a2p sale nb r = Inr r'"
  shows "volumeOf sel c r' =
           volumeOf sel c r + (if counts_for a2p sel c sale then price sale sdiv int nb else 0)"
    and "totalSales r' = totalSales r + 1"
    and "paymentTokenVolumes r' \<noteq> []"
proof -
  from assms obtain cn where cn: "a2p (paymentToken sale) = Some cn" and nb: "int nb \<noteq> 0"
    by (auto simp: addSale_def BigNumber_div_def split: option.splits if_splits)
  let ?p = "price sale sdiv int nb"
  let ?v = "case map_of (paymentTokenVolumes r) cn of
              None \<Rightarrow> \<lparr>total = 0, vol_OSV1 = 0, vol_OSV2 = 0, vol_LOOKSRARE = 0\<rparr> | Some v \<Rightarrow> v"
  let ?v2 = "add_to_exchange (exchange sale) ?p (?v\<lparr>total := total ?v + ?p\<rparr>)"
  have r': "r' = r\<lparr>totalSales := totalSales r + 1,
                  paymentTokenVolumes := AList.update cn ?v2 (paymentTokenVolumes r)\<rparr>"
    using assms cn nb by (simp add: addSale_def BigNumber_div_def Let_def)
  show "totalSales r' = totalSales r + 1" by (simp add: r')
  show "paymentTokenVolumes r' \<noteq> []" by (simp add: r')
  have v0: "volume_entry sel ?v = volumeOf sel cn r"
    by (cases sel; cases "the sel") (auto simp: volumeOf_def split: option.splits)
  show "volumeOf sel c r' =
           volumeOf sel c r + (if counts_for a2p sel c sale then price sale sdiv int nb else 0)"
  proof (cases "c = cn")
    case True
    have "volumeOf sel c r' = volume_entry sel ?v2"
      by (simp add: r' volumeOf_def update_conv' True)
    also have "\<dots> = volume_entry sel ?v + (if sel = None \<or> sel = Some (exchange sale) then ?p else 0)"
      by (rule volume_entry_add)
    finally show ?thesis using v0 cn True by (simp add: counts_for_def)
  next
    case False
    then show ?thesis using cn by (auto simp: r' volumeOf_def update_conv' counts_for_def)
  qed
qed

lemma volumeOf_new [simp]: "volumeOf sel c (new_ProjectReport a b d e f) = 0"
  by (simp add: volumeOf_def new_ProjectReport_def)

lemma browseLookupTables_volume:
  "browseLookupTables a2p pI sale nb ts reports = Inr reports' \<Longrightarrow>
   volumeAt sel p c reports' =
     volumeAt sel p c reports
     + (if counts_for a2p sel c sale
        then int (length (filter (\<lambda>t. project_name (project (token t)) = p) ts))
             * (price sale sdiv int nb)
        else 0)"
proof (induction ts arbitrary: reports)
  case Nil
  then show ?case by simp
next
  case (Cons t ts)
  let ?prj = "project (token t)"
  let ?r = "case map_of reports (project_name ?prj) of
              None \<Rightarrow> new_ProjectReport (pI (project_id ?prj)) (project_name ?prj)
                        (project_artistAddress ?prj) (additionalPayee ?prj)
                        (additionalPayeePercentage ?prj)
            | Some r \<Rightarrow> r"
  from Cons.prems obtain r' where
    a: "addSale a2p sale nb ?r = Inr r'" and
    b: "browseLookupTables a2p pI sale nb ts (AList.update (project_name ?prj) r' reports) = Inr reports'"
    by (auto simp: Let_def split: sum.splits)
  have old: "volumeOf sel c ?r = volumeAt sel (project_name ?prj) c reports"
    by (simp add: volumeAt_def split: option.splits)
  have step: "volumeAt sel p c (AList.update (project_name ?prj) r' reports) =
              volumeAt sel p c reports
              + (if project_name ?prj = p \<and> counts_for a2p sel c sale
                 then price sale sdiv int nb else 0)"
    using addSale_effect(1) [OF a, of sel c] old
    by (auto simp: volumeAt_def update_conv')
  show ?case
    unfolding Cons.IH [OF b] step
    by (simp add: algebra_simps)
qed

lemma split_from_separatorCount:
  "length (split_from ''::'' piece s) = Suc (separatorCount s)"
  by (induction s arbitrary: piece rule: separatorCount.induct) auto

lemma nbTokensSold_encodedTokenCount:
  "nbTokensSold sale = encodedTokenCount (summaryTokensSold sale)"
  by (simp add: nbTokensSold_def split_def encodedTokenCount_def split_from_separatorCount)

lemma separatorCount_no_colon:
  "CHR '':'' \<notin> set t \<Longrightarrow> separatorCount (t @ s) = separatorCount s"
proof (induction t)
  case Nil
  show ?case by simp
next
  case (Cons c t)
  then show ?case by (cases "t @ s") auto
qed

lemma encodedTokenCount_joinTokens:
  "ts \<noteq> [] \<Longrightarrow> \<forall>t\<in>set ts. CHR '':'' \<notin> set t \<Longrightarrow>
   encodedTokenCount (joinTokens ts) = length ts"
proof (induction ts rule: joinTokens.induct)
  case 1
  then show ?case by simp
next
  case (2 t)
  then show ?case
    using separatorCount_no_colon [of t "[]"] by (simp add: encodedTokenCount_def)
next
  case (3 t u ts)
  then show ?case
    using separatorCount_no_colon [of t "''::'' @ joinTokens (u # ts)"]
    by (simp add: encodedTokenCount_def)
qed

lemma browseSales_volume:
  "browseSales a2p pI sales reports = Inr reports' \<Longrightarrow>
   volumeAt sel p c reports' =
     volumeAt sel p c reports
     + (\<Sum>sale\<leftarrow>sales.
          if counts_for a2p sel c sale
          then int (tokensOfProject p sale)
               * (price sale sdiv int (encodedTokenCount (summaryTokensSold sale)))
          else 0)"
proof (induction sales arbitrary: reports)
  case Nil
  then show ?case by simp
next
  case (Cons s sales)
  from Cons.prems obtain mid where
    a: "browseLookupTables a2p pI s (nbTokensSold s) (saleLookupTables s) reports = Inr mid" and
    b: "browseSales a2p pI sales mid = Inr reports'"
    by (auto split: sum.splits)
  have "volumeAt sel p c mid =
          volumeAt sel p c reports
          + (if counts_for a2p sel c s
             then int (tokensOfProject p s)
                  * (price s sdiv int (encodedTokenCount (summaryTokensSold s)))
             else 0)"
    using browseLookupTables_volume [OF a, of sel p c]
    by (simp add: tokensOfProject_def nbTokensSold_encodedTokenCount)
  with Cons.IH [OF b] show ?case by simp
qed

lemma sumTotalSales_update:
  "sumTotalSales (AList.update k v xs)
     + (case map_of xs k of None \<Rightarrow> 0 | Some old \<Rightarrow> totalSales old)
   = sumTotalSales xs + totalSales v"
  by (induction xs) (auto simp: sumTotalSales_def)

lemma browseLookupTables_totalSales:
  "browseLookupTables a2p pI sale nb ts reports = Inr reports' \<Longrightarrow>
   sumTotalSales reports' = sumTotalSales reports + length ts"
proof (induction ts arbitrary: reports)
  case Nil
  then show ?case by simp
next
  case (Cons t ts)
  let ?prj = "project (token t)"
  let ?r = "case map_of reports (project_name ?prj) of
              None \<Rightarrow> new_ProjectReport (pI (project_id ?prj)) (project_name ?prj)
                        (project_artistAddress ?prj) (additionalPayee ?prj)
                        (additionalPayeePercentage ?prj)
            | Some r \<Rightarrow> r"
  from Cons.prems obtain r' where
    a: "addSale a2p sale nb ?r = Inr r'" and
    b: "browseLookupTables a2p pI sale nb ts (AList.update (project_name ?prj) r' reports) = Inr reports'"
    by (auto simp: Let_def split: sum.splits)
  have "totalSales r' = totalSales ?r + 1" by (rule addSale_effect(2) [OF a])
  moreover have "totalSales ?r = (case map_of reports (project_name ?prj) of None \<Rightarrow> 0 | Some old \<Rightarrow> totalSales old)"
    by (simp add: new_ProjectReport_def split: option.splits)
  ultimately have "sumTotalSales (AList.update (project_name ?prj) r' reports) = sumTotalSales reports + 1"
    using sumTotalSales_update [of "project_name ?prj" r' reports] by simp
  with Cons.IH [OF b] show ?case by simp
qed

lemma browseSales_totalSales:
  "browseSales a2p pI sales reports = Inr reports' \<Longrightarrow>
   sumTotalSales reports' = sumTotalSales reports + (\<Sum>sale\<leftarrow>sales. length (saleLookupTables sale))"
proof (induction sales arbitrary: reports)
  case Nil
  then show ?case by simp
next
  case (Cons s sales)
  from Cons.prems obtain mid where
    a: "browseLookupTables a2p pI s (nbTokensSold s) (saleLookupTables s) reports = Inr mid" and
    b: "browseSales a2p pI sales mid = Inr reports'"
    by (auto split: sum.splits)
  show ?case
    unfolding Cons.IH [OF b] browseLookupTables_totalSales [OF a] by simp
qed

lemma addSale_returns:
  "0 < nb \<Longrightarrow> a2p (paymentToken sale) \<noteq> None \<Longrightarrow> \<exists>r'. addSale a2p sale nb r = Inr r'"
  by (auto simp: addSale_def BigNumber_div_def Let_def)

lemma browseLookupTables_returns:
  "0 < nb \<Longrightarrow> ts = [] \<or> a2p (paymentToken sale) \<noteq> None \<Longrightarrow>
   \<exists>reports'. browseLookupTables a2p pI sale nb ts reports = Inr reports'"
proof (induction ts arbitrary: reports)
  case Nil
  then show ?case by simp
next
  case (Cons t ts)
  then have k: "a2p (paymentToken sale) \<noteq> None" by simp
  let ?prj = "project (token t)"
  let ?r = "case map_of reports (project_name ?prj) of
              None \<Rightarrow> new_ProjectReport (pI (project_id ?prj)) (project_name ?prj)
                        (project_artistAddress ?prj) (additionalPayee ?prj)
                        (additionalPayeePercentage ?prj)
            | Some r \<Rightarrow> r"
  from addSale_returns [of nb a2p sale ?r] Cons.prems(1) k
  obtain r' where a: "addSale a2p sale nb ?r = Inr r'"
    by blast
  from Cons.IH [OF Cons.prems(1), of "AList.update (project_name ?prj) r' reports"] k a
  show ?case by (simp add: Let_def)
qed

lemma browseSales_returns:
  "paymentTokensKnown a2p sales \<Longrightarrow> \<exists>reports'. browseSales a2p pI sales reports = Inr reports'"
proof (induction sales arbitrary: reports)
  case Nil
  then show ?case by simp
next
  case (Cons s sales)
  have "0 < nbTokensSold s" using nbTokensSold_pos [of s] by simp
  moreover from Cons.prems have "saleLookupTables s = [] \<or> a2p (paymentToken s) \<noteq> None"
    by (simp add: paymentTokensKnown_def)
  ultimately obtain mid where
    a: "browseLookupTables a2p pI s (nbTokensSold s) (saleLookupTables s) reports = Inr mid"
    using browseLookupTables_returns by blast
  from Cons.prems have "paymentTokensKnown a2p sales" by (simp add: paymentTokensKnown_def)
  from Cons.IH [OF this, of mid] a show ?case by simp
qed

lemma count_le_sum_lengths:
  "length (filter hasSurvivingLookup sales) \<le> (\<Sum>sale\<leftarrow>sales. length (saleLookupTables sale))"
  by (induction sales) (auto simp: hasSurvivingLookup_def)

lemma sum_lengths_eq_count_iff:
  "(\<Sum>sale\<leftarrow>sales. length (saleLookupTables sale)) = length (filter hasSurvivingLookup sales)
     \<longleftrightarrow> list_all (\<lambda>sale. length (saleLookupTables sale) \<le> 1) sales"
proof (induction sales)
  case Nil
  then show ?case by simp
next
  case (Cons s sales)
  let ?n = "length (saleLookupTables s)"
  let ?S = "\<Sum>sale\<leftarrow>sales. length (saleLookupTables sale)"
  let ?C = "length (filter hasSurvivingLookup sales)"
  have le: "?C \<le> ?S" by (rule count_le_sum_lengths)
  show ?case
  proof (cases "?n = 0")
    case True
    then show ?thesis using Cons.IH by (simp add: hasSurvivingLookup_def)
  next
    case False
    then have h: "hasSurvivingLookup s"
      by (cases "saleLookupTables s") (simp_all add: hasSurvivingLookup_def)
    have arith: "\<And>n S C::nat. C \<le> S \<Longrightarrow> n \<noteq> 0 \<Longrightarrow> (n + S = Suc C) = (n \<le> 1 \<and> S = C)"
      by arith
    have "(?n + ?S = Suc ?C) \<longleftrightarrow> (?n \<le> 1 \<and> ?S = ?C)"
      by (rule arith [OF le False])
    then show ?thesis using Cons.IH h by simp
  qed
qed

text \<open>
  Claim C2. For every sale, the call of \<^verbatim>\<open>addSale\<close> that the loop of
  \<^verbatim>\<open>generateProjectReports\<close> makes for one of its lookup tables adds to the report's total
  for the sale's payment token exactly one share: the sale's price divided, truncating, by
  the cardinality of its summary encoding (for token ids without a colon, joined by
  \<^verbatim>\<open>"::"\<close>, their number), whatever the number of lookup tables left. When the payment token
  of every sale is known, the loop over the sales returns, and in the reports it leaves,
  every entry (total, or one exchange's) of a project's volume for a payment token is the
  sum, over the sales paid in that token (on that exchange), of one such share per surviving
  lookup table of that project. No remainder is added back: for a sale of price 100 over
  three tokens each share is 33 and the volume is 99.
\<close>

theorem share_is_price_div_original_count:
  assumes "paymentTokensKnown a2p sales"
  shows "(\<forall>sale r r' c. addSale a2p sale (nbTokensSold sale) r = Inr r' \<longrightarrow>
            volumeOf None c r' =
              volumeOf None c r
              + (if a2p (paymentToken sale) = Some c
                 then price sale sdiv int (encodedTokenCount (summaryTokensSold sale))
                 else 0))
     \<and> (\<forall>ts. ts \<noteq> [] \<and> (\<forall>t\<in>set ts. CHR '':'' \<notin> set t) \<longrightarrow>
            encodedTokenCount (joinTokens ts) = length ts)
     \<and> (\<exists>reports. browseSales a2p pI sales [] = Inr reports
          \<and> (\<forall>sel p c. volumeAt sel p c reports =
                (\<Sum>sale\<leftarrow>sales.
                   if counts_for a2p sel c sale
                   then int (tokensOfProject p sale)
                        * (price sale sdiv int (encodedTokenCount (summaryTokensSold sale)))
                   else 0)))"
proof -
  have 1: "\<forall>sale r r' c. addSale a2p sale (nbTokensSold sale) r = Inr r' \<longrightarrow>
            volumeOf None c r' =
              volumeOf None c r
              + (if a2p (paymentToken sale) = Some c
                 then price sale sdiv int (encodedTokenCount (summaryTokensSold sale))
                 else 0)"
  proof (intro allI impI)
    fix sale r r' c
    assume "addSale a2p sale (nbTokensSold sale) r = Inr r'"
    from addSale_effect(1) [OF this, of None c]
    show "volumeOf None c r' =
              volumeOf None c r
              + (if a2p (paymentToken sale) = Some c
                 then price sale sdiv int (encodedTokenCount (summaryTokensSold sale))
                 else 0)"
      by (simp add: counts_for_def nbTokensSold_encodedTokenCount)
  qed
  have 2: "\<forall>ts. ts \<noteq> [] \<and> (\<forall>t\<in>set ts. CHR '':'' \<notin> set t) \<longrightarrow>
            encodedTokenCount (joinTokens ts) = length ts"
    using encodedTokenCount_joinTokens by blast
  from browseSales_returns [OF assms, of pI "[]"] obtain reports where
    r: "browseSales a2p pI sales [] = Inr reports" by blast
  have "\<forall>sel p c. volumeAt sel p c reports =
          (\<Sum>sale\<leftarrow>sales.
             if counts_for a2p sel c sale
             then int (tokensOfProject p sale)
                  * (price sale sdiv int (encodedTokenCount (summaryTokensSold sale)))
             else 0)"
    using browseSales_volume [OF r] by (simp add: volumeAt_def)
  with r 1 2 show ?thesis by blast
qed

theorem share_is_price_div_original_count_witness:
  "paymentTokensKnown addressToPaymentToken0 [bundle3]
   \<and> price bundle3 = 100
   \<and> summaryTokensSold bundle3 = joinTokens [''c0-23000001'', ''c0-23000002'', ''c0-23000003'']
   \<and> encodedTokenCount (summaryTokensSold bundle3) = 3
   \<and> nbTokensSold bundle3 = 3
   \<and> addSale addressToPaymentToken0 bundle3 (nbTokensSold bundle3)
        (new_ProjectReport (Some 23) ''Archetype'' ''0xa1'' (Some ''0xb2'') (Some 20))
      = Inr ((new_ProjectReport (Some 23) ''Archetype'' ''0xa1'' (Some ''0xb2'') (Some 20))
               \<lparr>totalSales := 1,
                paymentTokenVolumes :=
                  [(''ETH'', \<lparr>total = 33, vol_OSV1 = 0, vol_OSV2 = 33, vol_LOOKSRARE = 0\<rparr>)]\<rparr>)
   \<and> (\<exists>reports. browseSales addressToPaymentToken0 parseInt0 [bundle3] [] = Inr reports
        \<and> volumeAt None ''Archetype'' ''ETH'' reports = 99
        \<and> volumeAt (Some OSV2) ''Archetype'' ''ETH'' reports = 99
        \<and> volumeAt (Some LOOKSRARE) ''Archetype'' ''ETH'' reports = 0)
   \<and> (\<exists>reports. browseSales addressToPaymentToken0 parseInt0
                    [bundle3\<lparr>saleLookupTables := [lookup1]\<rparr>] [] = Inr reports
        \<and> volumeAt None ''Archetype'' ''ETH'' reports = 33)"
proof -
  let ?one = "bundle3\<lparr>saleLookupTables := [lookup1]\<rparr>"
  let ?new = "new_ProjectReport (Some 23) ''Archetype'' ''0xa1'' (Some ''0xb2'') (Some 20)"
  have su: "summaryTokensSold bundle3 = ''c0-23000001::c0-23000002::c0-23000003''"
    "summaryTokensSold ?one = ''c0-23000001::c0-23000002::c0-23000003''"
    by (simp_all add: bundle3_def)
  have j: "summaryTokensSold bundle3 =
           joinTokens [''c0-23000001'', ''c0-23000002'', ''c0-23000003'']"
    by (simp add: su)
  have k: "paymentTokensKnown addressToPaymentToken0 [bundle3]"
    "paymentTokensKnown addressToPaymentToken0 [?one]"
    by (simp_all add: paymentTokensKnown_def addressToPaymentToken0_def bundle3_def sale0_def)
  note thm1 = share_is_price_div_original_count [OF k(1), of parseInt0]
  note thm2 = share_is_price_div_original_count [OF k(2), of parseInt0]
  from thm1 have rt: "\<forall>ts. ts \<noteq> [] \<and> (\<forall>t\<in>set ts. CHR '':'' \<notin> set t) \<longrightarrow>
            encodedTokenCount (joinTokens ts) = length ts"
    by blast
  have "encodedTokenCount (joinTokens [''c0-23000001'', ''c0-23000002'', ''c0-23000003'']) =
        length [''c0-23000001'', ''c0-23000002'', ''c0-23000003'']"
    by (rule rt [rule_format]) simp
  then have ec: "encodedTokenCount (summaryTokensSold bundle3) = 3"
    "encodedTokenCount (summaryTokensSold ?one) = 3"
    using j su by simp_all
  have nb: "nbTokensSold bundle3 = 3"
    by (simp add: nbTokensSold_def split_def su)
  have pr: "price bundle3 = 100" "price ?one = 100" by (simp_all add: bundle3_def sale0_def)
  have t: "tokensOfProject ''Archetype'' bundle3 = 3" "tokensOfProject ''Archetype'' ?one = 1"
    by (simp_all add: tokensOfProject_def bundle3_def sale0_def lookup0_def lookup1_def
        lookup2_def token0_def project0_def)
  have c: "addressToPaymentToken0 (paymentToken bundle3) = Some ''ETH''"
    "exchange bundle3 = OSV2"
    by (simp_all add: addressToPaymentToken0_def bundle3_def sale0_def)
  have a: "addSale addressToPaymentToken0 bundle3 (nbTokensSold bundle3) ?new =
           Inr (?new\<lparr>totalSales := 1,
                     paymentTokenVolumes :=
                       [(''ETH'', \<lparr>total = 33, vol_OSV1 = 0, vol_OSV2 = 33, vol_LOOKSRARE = 0\<rparr>)]\<rparr>)"
    by (simp add: addSale_def BigNumber_div_def nb pr c new_ProjectReport_def
        signed_divide_int_def)
  from thm1 obtain reports where
    r: "browseSales addressToPaymentToken0 parseInt0 [bundle3] [] = Inr reports" and
    v: "\<forall>sel p c. volumeAt sel p c reports =
          (\<Sum>sale\<leftarrow>[bundle3].
             if counts_for addressToPaymentToken0 sel c sale
             then int (tokensOfProject p sale)
                  * (price sale sdiv int (encodedTokenCount (summaryTokensSold sale)))
             else 0)"
    by blast
  have v1: "volumeAt None ''Archetype'' ''ETH'' reports = 99
        \<and> volumeAt (Some OSV2) ''Archetype'' ''ETH'' reports = 99
        \<and> volumeAt (Some LOOKSRARE) ''Archetype'' ''ETH'' reports = 0"
    using ec pr t c by (simp add: v counts_for_def signed_divide_int_def)
  from thm2 obtain reports' where
    r': "browseSales addressToPaymentToken0 parseInt0 [?one] [] = Inr reports'" and
    v': "\<forall>sel p c. volumeAt sel p c reports' =
          (\<Sum>sale\<leftarrow>[?one].
             if counts_for addressToPaymentToken0 sel c sale
             then int (tokensOfProject p sale)
                  * (price sale sdiv int (encodedTokenCount (summaryTokensSold sale)))
             else 0)"
    by blast
  have v2: "volumeAt None ''Archetype'' ''ETH'' reports' = 33"
    using ec pr t c by (simp add: v' counts_for_def signed_divide_int_def)
  from k(1) pr(1) j ec(1) nb a r v1 r' v2 show ?thesis by blast
qed

text \<open>
  Claim C9, as the code has it. When the payment token of every sale is known, the loop over
  the sales returns, and the \<^verbatim>\<open>totalSales\<close> of the reports it leaves add up to the number of
  surviving lookup tables of all sales: \<^verbatim>\<open>addSale\<close> counts one sale per token sold. The sum is
  therefore at least the number of sales with a surviving lookup table, and equal to it
  exactly when no sale has more than one surviving lookup table.
\<close>

theorem totalSales_counts_lookup_tables:
  assumes "paymentTokensKnown a2p sales"
  shows "\<exists>reports. browseSales a2p pI sales [] = Inr reports
     \<and> sumTotalSales reports = (\<Sum>sale\<leftarrow>sales. length (saleLookupTables sale))
     \<and> length (filter hasSurvivingLookup sales) \<le> sumTotalSales reports
     \<and> (sumTotalSales reports = length (filter hasSurvivingLookup sales)
          \<longleftrightarrow> list_all (\<lambda>sale. length (saleLookupTables sale) \<le> 1) sales)"
proof -
  from browseSales_returns [OF assms, of pI "[]"] obtain reports where
    r: "browseSales a2p pI sales [] = Inr reports" by blast
  have s: "sumTotalSales reports = (\<Sum>sale\<leftarrow>sales. length (saleLookupTables sale))"
    using browseSales_totalSales [OF r] by (simp add: sumTotalSales_def)
  show ?thesis
    using r s count_le_sum_lengths [of sales] sum_lengths_eq_count_iff [of sales]
    by auto
qed

theorem totalSales_counts_lookup_tables_witness:
  "paymentTokensKnown addressToPaymentToken0 [bundle2, saleLR]
   \<and> (\<exists>reports. browseSales addressToPaymentToken0 parseInt0 [bundle2, saleLR] [] = Inr reports
        \<and> sumTotalSales reports = 3)
   \<and> length (filter hasSurvivingLookup [bundle2, saleLR]) = 2"
proof -
  have k: "paymentTokensKnown addressToPaymentToken0 [bundle2, saleLR]"
    by (simp add: paymentTokensKnown_def addressToPaymentToken0_def bundle2_def saleLR_def
        sale0_def)
  have l: "length (saleLookupTables bundle2) = 2" "length (saleLookupTables saleLR) = 1"
    by (simp_all add: bundle2_def saleLR_def sale0_def)
  from totalSales_counts_lookup_tables [OF k, of parseInt0] obtain reports where
    "browseSales addressToPaymentToken0 parseInt0 [bundle2, saleLR] [] = Inr reports"
    "sumTotalSales reports = (\<Sum>sale\<leftarrow>[bundle2, saleLR]. length (saleLookupTables sale))"
    by blast
  moreover have "length (filter hasSurvivingLookup [bundle2, saleLR]) = 2"
    using l by (simp add: hasSurvivingLookup_def)
  ultimately show ?thesis using k l by auto
qed

text \<open>
  The spec's equality fails on a bundle of two tokens of one project: the sale spans one
  project, it is one sale with a surviving lookup table, and the reports count two.
\<close>

theorem totalSales_equality_counterexample:
  "map_sum id sumTotalSales (browseSales addressToPaymentToken0 parseInt0 [bundle2] []) = Inr 2
   \<and> length (filter hasSurvivingLookup [bundle2]) = 1
   \<and> \<not> spansSeveralProjects bundle2"
proof -
  have k: "paymentTokensKnown addressToPaymentToken0 [bundle2]"
    by (simp add: paymentTokensKnown_def addressToPaymentToken0_def bundle2_def sale0_def)
  have l: "length (saleLookupTables bundle2) = 2"
    by (simp add: bundle2_def)
  from browseSales_returns [OF k, of parseInt0 "[]"] obtain reports where
    r: "browseSales addressToPaymentToken0 parseInt0 [bundle2] [] = Inr reports" by blast
  from browseSales_totalSales [OF r] l have "sumTotalSales reports = 2"
    by (simp add: sumTotalSales_def)
  with r have "map_sum id sumTotalSales
                 (browseSales addressToPaymentToken0 parseInt0 [bundle2] []) = Inr 2"
    by simp
  moreover have "length (filter hasSurvivingLookup [bundle2]) = 1"
    using l by (simp add: hasSurvivingLookup_def)
  moreover have "\<not> spansSeveralProjects bundle2"
    by (simp add: spansSeveralProjects_def projectsOf_def bundle2_def lookup0_def lookup1_def
        token0_def)
  ultimately show ?thesis by blast
qed

subsection \<open>The closing loop of \<^verbatim>\<open>generateProjectReports\<close>\<close>

lemma computeCryptoDue_None:
  "paymentTokenVolumes r \<noteq> [] \<Longrightarrow> computeCryptoDue None r = Inl InvalidBigNumber"
  by (cases "paymentTokenVolumes r")
     (auto simp: computeCryptoDue_def BigNumber_from_def)

lemma computeAllCryptoDue_None:
  "paymentTokenVolumes r \<noteq> [] \<Longrightarrow>
   computeAllCryptoDue (map fst ((k, r) # rest)) ((k, r) # rest) = Inl InvalidBigNumber"
  by (simp add: computeCryptoDue_None)

lemma set_update_subset: "set (AList.update k v xs) \<subseteq> insert (k, v) (set xs)"
  by (induction xs) auto

lemma browseLookupTables_volumes_nonempty:
  "browseLookupTables a2p pI sale nb ts reports = Inr reports' \<Longrightarrow>
   \<forall>e\<in>set reports. paymentTokenVolumes (snd e) \<noteq> [] \<Longrightarrow>
   \<forall>e\<in>set reports'. paymentTokenVolumes (snd e) \<noteq> []"
proof (induction ts arbitrary: reports)
  case Nil
  then show ?case by simp
next
  case (Cons t ts)
  let ?prj = "project (token t)"
  let ?r = "case map_of reports (project_name ?prj) of
              None \<Rightarrow> new_ProjectReport (pI (project_id ?prj)) (project_name ?prj)
                        (project_artistAddress ?prj) (additionalPayee ?prj)
                        (additionalPayeePercentage ?prj)
            | Some r \<Rightarrow> r"
  from Cons.prems(1) obtain r' where
    a: "addSale a2p sale nb ?r = Inr r'" and
    b: "browseLookupTables a2p pI sale nb ts (AList.update (project_name ?prj) r' reports) = Inr reports'"
    by (auto simp: Let_def split: sum.splits)
  have "paymentTokenVolumes r' \<noteq> []" by (rule addSale_effect(3) [OF a])
  with Cons.prems(2) set_update_subset [of "project_name ?prj" r' reports]
  have "\<forall>e\<in>set (AList.update (project_name ?prj) r' reports). paymentTokenVolumes (snd e) \<noteq> []"
    by auto
  from Cons.IH [OF b this] show ?case .
qed

lemma browseSales_volumes_nonempty:
  "browseSales a2p pI sales reports = Inr reports' \<Longrightarrow>
   \<forall>e\<in>set reports. paymentTokenVolumes (snd e) \<noteq> [] \<Longrightarrow>
   \<forall>e\<in>set reports'. paymentTokenVolumes (snd e) \<noteq> []"
proof (induction sales arbitrary: reports)
  case Nil
  then show ?case by simp
next
  case (Cons s sales)
  from Cons.prems(1) obtain mid where
    a: "browseLookupTables a2p pI s (nbTokensSold s) (saleLookupTables s) reports = Inr mid" and
    b: "browseSales a2p pI sales mid = Inr reports'"
    by (auto split: sum.splits)
  from Cons.IH [OF b browseLookupTables_volumes_nonempty [OF a Cons.prems(2)]] show ?case .
qed

text \<open>
  Whenever the loop over the sales leaves a report, the closing loop throws at the first
  one: \<^verbatim>\<open>computeCryptoDue()\<close> is called without the fee percentage its declaration
  requires.
\<close>

lemma generateProjectReports_throws:
  assumes "browseSales a2p pI sales [] = Inr reports" "reports \<noteq> []"
  shows "generateProjectReports a2p pI sales = Inl InvalidBigNumber"
proof -
  from assms(2) obtain k r rest where e: "reports = (k, r) # rest"
    by (cases reports) auto
  from browseSales_volumes_nonempty [OF assms(1)] e have "paymentTokenVolumes r \<noteq> []"
    by simp
  from computeAllCryptoDue_None [OF this, of k rest] assms(1) e show ?thesis
    by (simp add: generateProjectReports_def)
qed

text \<open>
  Claim C6, where the code departs from it. \<^verbatim>\<open>generateProjectReports\<close> on one LooksRare sale
  of one token, paid in a known token: the loop over the sales leaves one report, and the
  closing loop, which passes no fee percentage, ends in the exception of
  \<^verbatim>\<open>BigNumber.from(undefined)\<close>; no royalty is computed.
\<close>

theorem generateProjectReports_passes_no_fee:
  "generateProjectReports addressToPaymentToken0 parseInt0 [saleLR] = Inl InvalidBigNumber"
proof -
  have k: "paymentTokensKnown addressToPaymentToken0 [saleLR]"
    by (simp add: paymentTokensKnown_def addressToPaymentToken0_def saleLR_def sale0_def)
  from browseSales_returns [OF k, of parseInt0 "[]"] obtain reports where
    r: "browseSales addressToPaymentToken0 parseInt0 [saleLR] [] = Inr reports" by blast
  from browseSales_totalSales [OF r] have "sumTotalSales reports = 1"
    by (simp add: sumTotalSales_def saleLR_def sale0_def)
  then have "reports \<noteq> []" by (auto simp: sumTotalSales_def)
  from generateProjectReports_throws [OF r this] show ?thesis .
qed

section \<open>Properties of the pagination\<close>

subsection \<open>Descending lists\<close>

lemma descending_append:
  "descending (xs @ ys) \<longleftrightarrow>
     descending xs \<and> descending ys \<and> (\<forall>x\<in>set xs. \<forall>y\<in>set ys. blockNumber y \<le> blockNumber x)"
  by (simp add: descending_def sorted_wrt_append)

lemma descending_filter: "descending xs \<Longrightarrow> descending (filter P xs)"
  by (simp add: descending_def sorted_wrt_filter)

lemma descending_orderBy: "descending (orderByBlockNumberDesc xs)"
proof -
  have "sorted (map (\<lambda>sale. - int (blockNumber sale)) (orderByBlockNumberDesc xs))"
    by (simp add: orderByBlockNumberDesc_def)
  then show ?thesis by (simp add: descending_def sorted_map)
qed

lemma filter_orderBy:
  "orderByBlockNumberDesc (filter P xs) = filter P (orderByBlockNumberDesc xs)"
  by (simp add: orderByBlockNumberDesc_def filter_sort)

lemma mset_orderBy: "mset (orderByBlockNumberDesc xs) = mset xs"
  by (simp add: orderByBlockNumberDesc_def)

lemma descending_last_least:
  "descending xs \<Longrightarrow> x \<in> set xs \<Longrightarrow> blockNumber (last xs) \<le> blockNumber x"
proof (induction xs rule: rev_induct)
  case Nil
  then show ?case by simp
next
  case (snoc s ys)
  then show ?case by (auto simp: descending_append)
qed

lemma descending_partition:
  "descending xs \<Longrightarrow>
   filter (\<lambda>s. b < blockNumber s) xs @ filter (\<lambda>s. \<not> b < blockNumber s) xs = xs"
proof (induction xs)
  case Nil
  then show ?case by simp
next
  case (Cons x xs)
  from Cons.prems have d: "descending xs" and le: "\<forall>y\<in>set xs. blockNumber y \<le> blockNumber x"
    by (simp_all add: descending_def)
  show ?case
  proof (cases "b < blockNumber x")
    case True
    then show ?thesis using Cons.IH [OF d] by simp
  next
    case False
    with le have "\<forall>y\<in>set xs. \<not> b < blockNumber y" by fastforce
    then have "filter (\<lambda>s. b < blockNumber s) xs = []" "filter (\<lambda>s. \<not> b < blockNumber s) xs = xs"
      by (simp_all add: filter_empty_conv filter_id_conv)
    with False show ?thesis by simp
  qed
qed

subsection \<open>The search for the block to split at\<close>

lemma findBlockToSplit_snoc:
  "findBlockToSplit (ys @ [s]) b =
     (if b = - 1 then findBlockToSplit ys (int (blockNumber s))
      else if b < int (blockNumber s) then Inr (ys @ [s], blockNumber s)
      else findBlockToSplit ys b)"
  by (simp add: findBlockToSplit.simps [of "ys @ [s]"] Let_def)

lemma findBlockToSplit_Nil: "findBlockToSplit [] b = Inl TypeError"
  by (simp add: findBlockToSplit.simps)

lemma findBlockToSplit_all_le:
  "\<forall>s\<in>set xs. blockNumber s \<le> b0 \<Longrightarrow> findBlockToSplit xs (int b0) = Inl TypeError"
proof (induction xs rule: rev_induct)
  case Nil
  show ?case by (rule findBlockToSplit_Nil)
next
  case (snoc s ys)
  then show ?case by (simp add: findBlockToSplit_snoc)
qed

lemma findBlockToSplit_descending:
  "descending xs \<Longrightarrow>
   findBlockToSplit xs (int b0) =
     (let kept = filter (\<lambda>s. b0 < blockNumber s) xs
      in if kept = [] then Inl TypeError else Inr (kept, blockNumber (last kept)))"
proof (induction xs rule: rev_induct)
  case Nil
  show ?case by (simp add: findBlockToSplit_Nil)
next
  case (snoc s ys)
  from snoc.prems have d: "descending ys" and le: "\<forall>y\<in>set ys. blockNumber s \<le> blockNumber y"
    by (simp_all add: descending_append)
  show ?case
  proof (cases "b0 < blockNumber s")
    case True
    with le have "\<forall>y\<in>set ys. b0 < blockNumber y" by fastforce
    then have "filter (\<lambda>s. b0 < blockNumber s) ys = ys" by (simp add: filter_id_conv)
    with True show ?thesis by (simp add: findBlockToSplit_snoc)
  next
    case False
    with snoc.IH [OF d] show ?thesis by (simp add: findBlockToSplit_snoc Let_def)
  qed
qed

lemma findBlockToSplit_first_pop:
  "xs \<noteq> [] \<Longrightarrow>
   findBlockToSplit xs (- 1) = findBlockToSplit (butlast xs) (int (blockNumber (last xs)))"
  by (simp add: findBlockToSplit.simps [of xs] Let_def)

lemma findBlockToSplit_page:
  assumes "descending page" "page \<noteq> []"
  shows "findBlockToSplit page (- 1) =
     (let kept = filter (\<lambda>s. blockNumber (last page) < blockNumber s) page
      in if kept = [] then Inl TypeError else Inr (kept, blockNumber (last kept)))"
proof -
  let ?b0 = "blockNumber (last page)"
  have page: "page = butlast page @ [last page]" using assms(2) by simp
  then have "descending (butlast page @ [last page])" using assms(1) by simp
  then have d: "descending (butlast page)" by (simp add: descending_append)
  have "filter (\<lambda>s. ?b0 < blockNumber s) page =
        filter (\<lambda>s. ?b0 < blockNumber s) (butlast page @ [last page])"
    using page by simp
  then have f: "filter (\<lambda>s. ?b0 < blockNumber s) page = filter (\<lambda>s. ?b0 < blockNumber s) (butlast page)"
    by simp
  show ?thesis
    unfolding findBlockToSplit_first_pop [OF assms(2)] findBlockToSplit_descending [OF d] f ..
qed

subsection \<open>The loop over the pages\<close>

lemma length_filter_orderBy:
  "length (filter P (orderByBlockNumberDesc xs)) = length (filter P xs)"
proof -
  have "mset (filter P (orderByBlockNumberDesc xs)) = mset (filter P xs)"
    by (simp add: mset_orderBy)
  then show ?thesis by (metis size_mset)
qed

lemma length_filter_filter_le: "length (filter P (filter Q xs)) \<le> length (filter P xs)"
  by (induction xs) auto

lemma page_of_query:
  "getSalesBetweenBlockNumbers subgraph \<lparr>first = n, skip = 0\<rparr> lo hi =
     take n (filter (inBlockRange lo hi) (orderByBlockNumberDesc subgraph))"
  by (simp add: getSalesBetweenBlockNumbers_def filter_orderBy)

lemma getAllSales_loop_complete:
  assumes "0 < n"
    and "\<forall>b. lo \<le> b \<and> b < hi \<longrightarrow> length (filter (\<lambda>s. blockNumber s = b) subgraph) < n"
  shows "getAllSales_loop subgraph n acc lo hi =
           Inr (acc @ filter (inBlockRange lo hi) (orderByBlockNumberDesc subgraph))"
  using assms(2)
proof (induction hi arbitrary: acc rule: less_induct)
  case (less hi)
  let ?D = "orderByBlockNumberDesc subgraph"
  let ?F = "filter (inBlockRange lo hi) ?D"
  let ?page = "take n ?F"
  note page = page_of_query [of subgraph n lo hi]
  have dF: "descending ?F" by (simp add: descending_filter descending_orderBy)
  show ?case
  proof (cases "length ?page < n")
    case True
    then have "?page = ?F" by simp
    with True show ?thesis
      by (simp add: getAllSales_loop.simps [of subgraph n acc lo hi] page Let_def)
  next
    case False
    then have len: "length ?page = n" by simp
    with assms(1) have ne: "?page \<noteq> []" by auto
    have dp: "descending ?page" using dF by (simp add: descending_def sorted_wrt_take)
    let ?b0 = "blockNumber (last ?page)"
    let ?kept = "filter (\<lambda>s. ?b0 < blockNumber s) ?page"
    have "last ?page \<in> set ?page" using ne by (rule last_in_set)
    then have last_in: "last ?page \<in> set ?F" by (rule in_set_takeD)
    then have b0r: "lo \<le> ?b0" "?b0 < hi" by (simp_all add: inBlockRange_def)
    have kne: "?kept \<noteq> []"
    proof
      assume "?kept = []"
      then have "\<forall>s\<in>set ?page. \<not> ?b0 < blockNumber s" by (simp add: filter_empty_conv)
      moreover have "\<forall>s\<in>set ?page. ?b0 \<le> blockNumber s"
        using descending_last_least [OF dp] by blast
      ultimately have "\<forall>s\<in>set ?page. blockNumber s = ?b0" by fastforce
      then have "filter (\<lambda>s. blockNumber s = ?b0) ?page = ?page" by (simp add: filter_id_conv)
      then have "n = length (filter (\<lambda>s. blockNumber s = ?b0) ?page)" using len by simp
      also have "\<dots> \<le> length (filter (\<lambda>s. blockNumber s = ?b0) ?F)"
      proof -
        have "filter (\<lambda>s. blockNumber s = ?b0) ?F =
              filter (\<lambda>s. blockNumber s = ?b0) (?page @ drop n ?F)" by simp
        then show ?thesis by (simp del: append_take_drop_id)
      qed
      also have "\<dots> \<le> length (filter (\<lambda>s. blockNumber s = ?b0) ?D)"
        by (rule length_filter_filter_le)
      also have "\<dots> = length (filter (\<lambda>s. blockNumber s = ?b0) subgraph)"
        by (rule length_filter_orderBy)
      finally show False using less.prems b0r by auto
    qed
    let ?lt' = "blockNumber (last ?kept)"
    have fb: "findBlockToSplit ?page (- 1) = Inr (?kept, ?lt')"
      using findBlockToSplit_page [OF dp ne] kne by (simp add: Let_def)
    have lk: "last ?kept \<in> set ?kept" using kne by (rule last_in_set)
    then have gt: "?b0 < ?lt'" by simp
    from lk have "last ?kept \<in> set ?F" by (auto dest: in_set_takeD)
    then have lt'r: "lo \<le> ?lt'" "?lt' < hi" by (simp_all add: inBlockRange_def)
    have pre: "\<forall>b. lo \<le> b \<and> b < ?lt' \<longrightarrow> length (filter (\<lambda>s. blockNumber s = b) subgraph) < n"
      using less.prems lt'r(2) by auto
    have IH: "getAllSales_loop subgraph n (acc @ ?kept) lo ?lt' =
                Inr ((acc @ ?kept) @ filter (inBlockRange lo ?lt') ?D)"
      by (rule less.IH [OF lt'r(2) pre])
    have split: "?page @ drop n ?F = ?F" by simp
    have "descending (?page @ drop n ?F)" using dF by simp
    then have "\<forall>y\<in>set (drop n ?F). blockNumber y \<le> ?b0"
      using \<open>last ?page \<in> set ?page\<close> unfolding descending_append by blast
    then have "filter (\<lambda>s. ?b0 < blockNumber s) (drop n ?F) = []"
      by (auto simp: filter_empty_conv)
    then have "filter (\<lambda>s. ?b0 < blockNumber s) (?page @ drop n ?F) = ?kept"
      by (simp del: append_take_drop_id)
    then have keptF: "?kept = filter (\<lambda>s. ?b0 < blockNumber s) ?F" by simp
    have dk: "descending ?kept" using dp by (rule descending_filter)
    have "filter (inBlockRange lo ?lt') ?D = filter (\<lambda>s. blockNumber s < ?lt') ?F"
      using lt'r(2) by (auto simp: inBlockRange_def intro: filter_cong)
    also have "\<dots> = filter (\<lambda>s. \<not> ?b0 < blockNumber s) ?F"
    proof (rule filter_cong [OF refl])
      fix s assume sF: "s \<in> set ?F"
      show "(blockNumber s < ?lt') = (\<not> ?b0 < blockNumber s)"
      proof
        assume a: "blockNumber s < ?lt'"
        show "\<not> ?b0 < blockNumber s"
        proof
          assume "?b0 < blockNumber s"
          with sF have "s \<in> set (filter (\<lambda>s. ?b0 < blockNumber s) ?F)" by simp
          then have "s \<in> set ?kept" unfolding keptF [symmetric] .
          from descending_last_least [OF dk this] a show False by simp
        qed
      next
        assume "\<not> ?b0 < blockNumber s"
        with gt show "blockNumber s < ?lt'" by simp
      qed
    qed
    finally have below: "filter (inBlockRange lo ?lt') ?D = filter (\<lambda>s. \<not> ?b0 < blockNumber s) ?F" .
    have whole: "?kept @ filter (inBlockRange lo ?lt') ?D = ?F"
      unfolding below using descending_partition [OF dF, of ?b0] keptF by simp
    have "getAllSales_loop subgraph n acc lo hi = getAllSales_loop subgraph n (acc @ ?kept) lo ?lt'"
      using False fb by (simp add: getAllSales_loop.simps [of subgraph n acc lo hi] page Let_def)
    with IH whole show ?thesis by simp
  qed
qed

lemma findBlockToSplit_single_block:
  assumes "\<forall>s\<in>set page. blockNumber s = b"
  shows "findBlockToSplit page (- 1) = Inl TypeError"
proof (cases "page = []")
  case True
  then show ?thesis by (simp add: findBlockToSplit_Nil)
next
  case False
  then have "last page \<in> set page" by simp
  with assms have "\<forall>s\<in>set (butlast page). blockNumber s \<le> blockNumber (last page)"
    by (auto dest: in_set_butlastD)
  from findBlockToSplit_all_le [OF this] show ?thesis
    by (simp add: findBlockToSplit_first_pop [OF False])
qed

lemma getAllSales_loop_single_block:
  assumes "\<not> length (getSalesBetweenBlockNumbers subgraph \<lparr>first = n, skip = 0\<rparr> lo hi) < n"
    and "\<forall>s\<in>set (getSalesBetweenBlockNumbers subgraph \<lparr>first = n, skip = 0\<rparr> lo hi).
           blockNumber s = b"
  shows "getAllSales_loop subgraph n acc lo hi = Inl TypeError"
  using assms(1) findBlockToSplit_single_block [OF assms(2)]
  by (simp add: getAllSales_loop.simps [of subgraph n acc lo hi] Let_def)

lemma insort_key_replicate: "insort_key f x (replicate k x) = x # replicate k x"
  by (cases k) simp_all

lemma orderBy_replicate: "orderByBlockNumberDesc (replicate k x) = replicate k x"
  by (induction k) (simp_all add: orderByBlockNumberDesc_def insort_key_replicate)

lemma page_of_one_block:
  "inBlockRange lo hi x \<Longrightarrow>
   getSalesBetweenBlockNumbers (replicate n x) \<lparr>first = n, skip = 0\<rparr> lo hi = replicate n x"
  by (simp add: getSalesBetweenBlockNumbers_def orderBy_replicate)

lemma insort_key_past_replicate:
  "f b < f a \<Longrightarrow> insort_key f a (replicate n b @ ys) = replicate n b @ insort_key f a ys"
  for f :: "'a \<Rightarrow> int"
  by (induction n) simp_all

lemma orderBy_two_blocks:
  assumes "blockNumber a < blockNumber b"
  shows "orderByBlockNumberDesc (replicate m a @ replicate n b) = replicate n b @ replicate m a"
proof (induction m)
  case 0
  show ?case by (simp add: orderBy_replicate)
next
  case (Suc m)
  have "orderByBlockNumberDesc (replicate (Suc m) a @ replicate n b) =
        insort_key (\<lambda>sale. - int (blockNumber sale)) a
          (orderByBlockNumberDesc (replicate m a @ replicate n b))"
    by (simp add: orderByBlockNumberDesc_def)
  also have "\<dots> = replicate n b @ insort_key (\<lambda>sale. - int (blockNumber sale)) a (replicate m a)"
    unfolding Suc.IH using assms by (simp add: insort_key_past_replicate)
  finally show ?case by (simp add: insort_key_replicate)
qed

lemma length_filter_replicate:
  "length (filter P (replicate n x)) = (if P x then n else 0)"
  by (induction n) simp_all

lemma descending_page:
  "descending (getSalesBetweenBlockNumbers subgraph \<lparr>first = n, skip = 0\<rparr> lo hi)"
  unfolding page_of_query
  using descending_filter [OF descending_orderBy]
  by (simp add: descending_def sorted_wrt_take)

text \<open>
  Claim C1, as the code has it. Provided no block number of the range carries 1000 sales or
  more, \<^verbatim>\<open>getAllSalesBetweenBlockNumbers\<close> returns, and what it returns is the sales of the
  subgraph whose block number lies in the range \<open>[lo, hi)\<close>, in the subgraph's descending
  order: each of them exactly once (the result and the sales of the range are the same
  multiset), in descending order of block number. In the instance that follows the theorem,
  the range holds 1001 sales: the first page is full, it is cut between block 101 and block
  100, and the second query, below 101, returns the 999 sales of block 100.
\<close>

theorem getAllSales_exactly_once:
  assumes "\<forall>b. lo \<le> b \<and> b < hi \<longrightarrow> length (filter (\<lambda>s. blockNumber s = b) subgraph) < 1000"
  shows "\<exists>sales. getAllSalesBetweenBlockNumbers subgraph (lo, hi) = Inr sales
     \<and> sales = filter (inBlockRange lo hi) (orderByBlockNumberDesc subgraph)
     \<and> mset sales = mset (filter (inBlockRange lo hi) subgraph)
     \<and> descending sales"
proof -
  let ?sales = "filter (inBlockRange lo hi) (orderByBlockNumberDesc subgraph)"
  have "getAllSalesBetweenBlockNumbers subgraph (lo, hi) = Inr ?sales"
    using getAllSales_loop_complete [of 1000 lo hi subgraph "[]", OF _ assms]
    by (simp add: getAllSalesBetweenBlockNumbers_def)
  moreover have "mset ?sales = mset (filter (inBlockRange lo hi) subgraph)"
    by (simp add: mset_orderBy)
  moreover have "descending ?sales"
    by (simp add: descending_filter descending_orderBy)
  ultimately show ?thesis by blast
qed

theorem getAllSales_exactly_once_witness:
  "length (getSalesBetweenBlockNumbers fullPageSubgraph \<lparr>first = 1000, skip = 0\<rparr> 100 102) = 1000
   \<and> findBlockToSplit
        (getSalesBetweenBlockNumbers fullPageSubgraph \<lparr>first = 1000, skip = 0\<rparr> 100 102) (- 1)
       = Inr (replicate 2 (saleAt 101), 101)
   \<and> getSalesBetweenBlockNumbers fullPageSubgraph \<lparr>first = 1000, skip = 0\<rparr> 100 101
       = replicate 999 (saleAt 100)
   \<and> getAllSalesBetweenBlockNumbers fullPageSubgraph (100, 102)
       = Inr (replicate 2 (saleAt 101) @ replicate 999 (saleAt 100))"
proof -
  have b: "blockNumber (saleAt 100) = 100" "blockNumber (saleAt 101) = 101"
    "blockNumber (saleAt 99) = 99"
    by (simp_all add: saleAt_def)
  have lt: "blockNumber (saleAt 100) < blockNumber (saleAt 101)" by (simp add: b)
  have f2: "filter (inBlockRange 100 102) fullPageSubgraph =
            replicate 999 (saleAt 100) @ replicate 2 (saleAt 101)"
    by (simp add: fullPageSubgraph_def inBlockRange_def b)
  have f1: "filter (inBlockRange 100 101) fullPageSubgraph = replicate 999 (saleAt 100)"
    by (simp add: fullPageSubgraph_def inBlockRange_def b)
  have page: "getSalesBetweenBlockNumbers fullPageSubgraph \<lparr>first = 1000, skip = 0\<rparr> 100 102 =
              replicate 2 (saleAt 101) @ replicate 998 (saleAt 100)"
    by (simp add: getSalesBetweenBlockNumbers_def f2 orderBy_two_blocks [OF lt])
  have page2: "getSalesBetweenBlockNumbers fullPageSubgraph \<lparr>first = 1000, skip = 0\<rparr> 100 101 =
              replicate 999 (saleAt 100)"
    by (simp add: getSalesBetweenBlockNumbers_def f1 orderBy_replicate)
  have d: "descending (replicate 2 (saleAt 101) @ replicate 998 (saleAt 100))"
    using descending_page [of fullPageSubgraph 1000 100 102] by (simp add: page)
  have split: "findBlockToSplit (replicate 2 (saleAt 101) @ replicate 998 (saleAt 100)) (- 1)
               = Inr (replicate 2 (saleAt 101), 101)"
    using findBlockToSplit_page [OF d] by (simp add: Let_def b)
  have h: "\<forall>b. 100 \<le> b \<and> b < 102 \<longrightarrow>
             length (filter (\<lambda>s. blockNumber s = b) fullPageSubgraph) < 1000"
    by (simp add: fullPageSubgraph_def length_filter_replicate b)
  from getAllSales_exactly_once [OF h] have
    "getAllSalesBetweenBlockNumbers fullPageSubgraph (100, 102) =
       Inr (filter (inBlockRange 100 102) (orderByBlockNumberDesc fullPageSubgraph))"
    by blast
  also have "filter (inBlockRange 100 102) (orderByBlockNumberDesc fullPageSubgraph) =
             replicate 2 (saleAt 101) @ replicate 999 (saleAt 100)"
    unfolding filter_orderBy [symmetric] f2 by (rule orderBy_two_blocks [OF lt])
  finally show ?thesis using page page2 split by simp
qed

text \<open>
  The claim fails when one block of the range carries 1000 sales: the page is full and holds
  one block number, and nothing is returned.
\<close>

theorem getAllSales_full_block_counterexample:
  "getAllSalesBetweenBlockNumbers (replicate 1000 sale0) (100, 101) = Inl TypeError
   \<and> length (filter (inBlockRange 100 101) (replicate 1000 sale0)) = 1000"
proof -
  have r: "inBlockRange 100 101 sale0" by (simp add: inBlockRange_def sale0_def)
  have "getAllSales_loop (replicate 1000 sale0) 1000 [] 100 101 = Inl TypeError"
    by (rule getAllSales_loop_single_block [where b = "blockNumber sale0"])
       (simp_all add: page_of_one_block [OF r])
  then show ?thesis using r by (simp add: getAllSalesBetweenBlockNumbers_def)
qed

text \<open>
  Claim C8. On a full page of 1000 rows, the search for the block to split at ends in the
  exception of the pop of an emptied page exactly when all rows of the page have one block
  number; and then \<^verbatim>\<open>getAllSalesBetweenBlockNumbers\<close>, whatever sales it has gathered so far,
  ends in that exception: it neither goes on nor returns them.
\<close>

theorem single_block_page_is_fatal:
  assumes "page = getSalesBetweenBlockNumbers subgraph \<lparr>first = 1000, skip = 0\<rparr> gte lt"
    and "length page = 1000"
  shows "(findBlockToSplit page (- 1) = Inl TypeError
            \<longleftrightarrow> (\<forall>sale\<in>set page. blockNumber sale = blockNumber (last page)))
     \<and> ((\<forall>sale\<in>set page. blockNumber sale = blockNumber (last page))
            \<longrightarrow> getAllSales_loop subgraph 1000 sales gte lt = Inl TypeError)"
proof -
  have ne: "page \<noteq> []" using assms(2) by auto
  have d: "descending page"
    unfolding assms(1) page_of_query
    using descending_filter [OF descending_orderBy]
    by (simp add: descending_def sorted_wrt_take)
  let ?b0 = "blockNumber (last page)"
  have least: "\<forall>s\<in>set page. ?b0 \<le> blockNumber s"
    using descending_last_least [OF d] by blast
  have "findBlockToSplit page (- 1) = Inl TypeError
          \<longleftrightarrow> filter (\<lambda>s. ?b0 < blockNumber s) page = []"
    by (simp add: findBlockToSplit_page [OF d ne] Let_def)
  also have "\<dots> \<longleftrightarrow> (\<forall>s\<in>set page. blockNumber s = ?b0)"
    using least by (fastforce simp: filter_empty_conv)
  finally have 1: "findBlockToSplit page (- 1) = Inl TypeError
            \<longleftrightarrow> (\<forall>sale\<in>set page. blockNumber sale = ?b0)" .
  have 2: "(\<forall>sale\<in>set page. blockNumber sale = ?b0)
            \<longrightarrow> getAllSales_loop subgraph 1000 sales gte lt = Inl TypeError"
  proof
    assume "\<forall>sale\<in>set page. blockNumber sale = ?b0"
    then show "getAllSales_loop subgraph 1000 sales gte lt = Inl TypeError"
      using assms by (intro getAllSales_loop_single_block [where b = ?b0]) simp_all
  qed
  from 1 2 show ?thesis by blast
qed

theorem single_block_page_is_fatal_witness:
  "length (getSalesBetweenBlockNumbers (replicate 1000 sale0) \<lparr>first = 1000, skip = 0\<rparr> 0 200)
     = 1000
   \<and> findBlockToSplit (replicate 1000 sale0) (- 1) = Inl TypeError
   \<and> getAllSales_loop (replicate 1000 sale0) 1000 [sale0\<lparr>blockNumber := 300\<rparr>] 0 200
       = Inl TypeError"
proof -
  have r: "inBlockRange 0 200 sale0" by (simp add: inBlockRange_def sale0_def)
  note p = page_of_one_block [OF r, of 1000]
  have l: "length (getSalesBetweenBlockNumbers (replicate 1000 sale0)
                     \<lparr>first = 1000, skip = 0\<rparr> 0 200) = 1000"
    by (simp add: p)
  from single_block_page_is_fatal [OF refl l, of "[sale0\<lparr>blockNumber := 300\<rparr>]"] l
  show ?thesis by (simp add: p)
qed

section \<open>Properties of the marketplace import\<close>

subsection \<open>The early stop at the minimum block\<close>

lemma keepFromMinBlock_1_eq:
  "keepFromMinBlock_1 m xs (acc, r) =
     (acc @ takeWhile (\<lambda>sale. m \<le> os_blockNumber sale) xs,
      r \<or> list_ex (\<lambda>sale. os_blockNumber sale < m) xs)"
  by (induction xs arbitrary: acc) (auto simp: not_le)

lemma keepFromMinBlock_2_eq:
  "keepFromMinBlock_2 m xs (acc, r) =
     (acc @ filter (\<lambda>sale. m \<le> os_blockNumber sale) xs,
      r \<or> list_ex (\<lambda>sale. os_blockNumber sale < m) xs)"
  by (induction xs arbitrary: acc r) (auto simp: not_le)

lemma takeWhile_stops:
  "list_ex (\<lambda>sale. os_blockNumber sale < m) xs \<Longrightarrow>
   takeWhile (\<lambda>sale. m \<le> os_blockNumber sale) (xs @ ys) =
   takeWhile (\<lambda>sale. (m::nat) \<le> os_blockNumber sale) xs"
  by (induction xs) (auto simp: not_le)

lemma takeWhile_goes_on:
  "\<not> list_ex (\<lambda>sale. os_blockNumber sale < m) xs \<Longrightarrow>
   takeWhile (\<lambda>sale. m \<le> os_blockNumber sale) (xs @ ys) =
   xs @ takeWhile (\<lambda>sale. (m::nat) \<le> os_blockNumber sale) ys"
  by (induction xs) (auto simp: not_le)

lemma scrollPages_1_read:
  "list_all2 (\<lambda>events sales. snd (convert events) = Inr sales) readPages pages \<Longrightarrow>
   p # ps = readPages @ unread \<Longrightarrow> readPages \<noteq> [] \<Longrightarrow>
   unread = [] \<or> list_ex (\<lambda>sale. os_blockNumber sale < m) (concat pages) \<Longrightarrow>
   scrollPages convert (keepFromMinBlock_1 m) p ps acc =
     Inr (acc @ takeWhile (\<lambda>sale. m \<le> os_blockNumber sale) (concat pages))"
proof (induction readPages arbitrary: p ps acc pages)
  case Nil
  then show ?case by simp
next
  case (Cons r rs)
  from Cons.prems(2) have p: "p = r" and ps: "ps = rs @ unread" by simp_all
  from Cons.prems(1) obtain sp rest where
    pages: "pages = sp # rest" and sp: "snd (convert p) = Inr sp" and
    rest: "list_all2 (\<lambda>events sales. snd (convert events) = Inr sales) rs rest"
    unfolding p by (auto simp: list_all2_Cons1)
  show ?case
  proof (cases "list_ex (\<lambda>sale. os_blockNumber sale < m) sp")
    case True
    then show ?thesis
      using sp
      by (cases ps)
         (simp_all add: scrollPages.simps [of _ _ p] keepFromMinBlock_1_eq pages
            takeWhile_stops)
  next
    case False
    then have all: "takeWhile (\<lambda>sale. m \<le> os_blockNumber sale) sp = sp"
      using takeWhile_goes_on [of m sp "[]"] by simp
    show ?thesis
    proof (cases ps)
      case Nil
      with ps have "rs = []" by simp
      with rest have "rest = []" by simp
      with Nil sp False show ?thesis
        by (simp add: scrollPages.simps [of _ _ p "[]"] keepFromMinBlock_1_eq pages)
    next
      case (Cons q qs)
      have rs: "rs \<noteq> []"
      proof
        assume "rs = []"
        with rest have "rest = []" by simp
        with \<open>rs = []\<close> ps Cons Cons.prems(4) False show False by (simp add: pages)
      qed
      have un: "unread = [] \<or> list_ex (\<lambda>sale. os_blockNumber sale < m) (concat rest)"
        using Cons.prems(4) False by (auto simp: pages list_ex_iff)
      have q: "q # qs = rs @ unread" using ps Cons by simp
      have "scrollPages convert (keepFromMinBlock_1 m) p ps acc =
            scrollPages convert (keepFromMinBlock_1 m) q qs (acc @ sp)"
        using sp False Cons
        by (simp add: scrollPages.simps [of _ _ p "q # qs"] keepFromMinBlock_1_eq all)
      with False show ?thesis
        unfolding Cons.IH [OF rest q rs un] pages by (simp add: takeWhile_goes_on)
    qed
  qed
qed

lemma scrollPages_2_read:
  "list_all2 (\<lambda>events sales. snd (convert events) = Inr sales) readPages pages \<Longrightarrow>
   p # ps = readPages @ unread \<Longrightarrow> readPages \<noteq> [] \<Longrightarrow>
   unread = [] \<or> list_ex (\<lambda>sale. os_blockNumber sale < m) (concat pages) \<Longrightarrow>
   scrollPages convert (keepFromMinBlock_2 m) p ps acc = Inr (acc @ keptByFilter m pages)"
proof (induction readPages arbitrary: p ps acc pages)
  case Nil
  then show ?case by simp
next
  case (Cons r rs)
  from Cons.prems(2) have p: "p = r" and ps: "ps = rs @ unread" by simp_all
  from Cons.prems(1) obtain sp rest where
    pages: "pages = sp # rest" and sp: "snd (convert p) = Inr sp" and
    rest: "list_all2 (\<lambda>events sales. snd (convert events) = Inr sales) rs rest"
    unfolding p by (auto simp: list_all2_Cons1)
  show ?case
  proof (cases "list_ex (\<lambda>sale. os_blockNumber sale < m) sp")
    case True
    then show ?thesis
      using sp
      by (cases ps)
         (simp_all add: scrollPages.simps [of _ _ p] keepFromMinBlock_2_eq pages)
  next
    case False
    show ?thesis
    proof (cases ps)
      case Nil
      with ps have "rs = []" by simp
      with rest have "rest = []" by simp
      with Nil sp False show ?thesis
        by (simp add: scrollPages.simps [of _ _ p "[]"] keepFromMinBlock_2_eq pages)
    next
      case (Cons q qs)
      have rs: "rs \<noteq> []"
      proof
        assume "rs = []"
        with rest have "rest = []" by simp
        with \<open>rs = []\<close> ps Cons Cons.prems(4) False show False by (simp add: pages)
      qed
      have un: "unread = [] \<or> list_ex (\<lambda>sale. os_blockNumber sale < m) (concat rest)"
        using Cons.prems(4) False by (auto simp: pages list_ex_iff)
      have q: "q # qs = rs @ unread" using ps Cons by simp
      have "scrollPages convert (keepFromMinBlock_2 m) p ps acc =
            scrollPages convert (keepFromMinBlock_2 m) q qs
              (acc @ filter (\<lambda>sale. m \<le> os_blockNumber sale) sp)"
        using sp False Cons
        by (simp add: scrollPages.simps [of _ _ p "q # qs"] keepFromMinBlock_2_eq)
      with False show ?thesis
        unfolding Cons.IH [OF rest q rs un] pages by simp
    qed
  qed
qed

text \<open>
  Claim C4, as the code has it. Take a collection other than the excluded one, and the pages
  up to some page: either all the pages there are, or pages among which a sale lies below
  \<^verbatim>\<open>minBlockNumber\<close>. Nothing is asked of the pages after them. If these pages convert in the
  first variant, the first variant of \<^verbatim>\<open>getOpenSeaSalesEvents\<close> returns their sales, in order,
  up to the first sale below \<^verbatim>\<open>minBlockNumber\<close>: that sale and all sales after it, in its page
  and in the later pages, are left out, whatever their block numbers. If they convert in the
  second variant, the second variant returns of each page the sales at or above
  \<^verbatim>\<open>minBlockNumber\<close>, those after a sale below it included, and nothing of the pages after a
  page that held a sale below it.
\<close>

theorem getOpenSeaSalesEvents_early_stop:
  assumes "collectionSlug \<noteq> ''cryptocitizensofficial''"
    and "asset_events # later = readPages @ unread" and "readPages \<noteq> []"
  shows "(list_all2 (\<lambda>events sales.
              snd (openSeaEventModelToSubgraphModel_1 tokenZero collectionSlug events) = Inr sales)
            readPages pages1
          \<and> (unread = [] \<or> list_ex (\<lambda>sale. os_blockNumber sale < minBlockNumber) (concat pages1))
          \<longrightarrow> getOpenSeaSalesEvents_1 collectionSlug tokenZero minBlockNumber asset_events later =
                Inr (takeWhile (\<lambda>sale. minBlockNumber \<le> os_blockNumber sale) (concat pages1)))
     \<and> (list_all2 (\<lambda>events sales.
              snd (openSeaEventModelToSubgraphModel_2 tokenZero collectionSlug events) = Inr sales)
            readPages pages2
          \<and> (unread = [] \<or> list_ex (\<lambda>sale. os_blockNumber sale < minBlockNumber) (concat pages2))
          \<longrightarrow> getOpenSeaSalesEvents_2 collectionSlug tokenZero minBlockNumber asset_events later =
                Inr (keptByFilter minBlockNumber pages2))"
  using assms(1)
    scrollPages_1_read [OF _ assms(2) assms(3), of _ pages1 minBlockNumber "[]"]
    scrollPages_2_read [OF _ assms(2) assms(3), of _ pages2 minBlockNumber "[]"]
  by (simp add: getOpenSeaSalesEvents_1_def getOpenSeaSalesEvents_2_def)

lemma eventToSale_single:
  "tokens tokenZero = firstToken # others \<Longrightarrow> payload ev = Asset a \<Longrightarrow>
   eventToSale_1 tokenZero slug ev = ([], Inr (newSale ev [singleLookupTable firstToken ev a]))
   \<and> eventToSale_2 tokenZero slug ev = ([], Inr (newSale ev [singleLookupTable firstToken ev a]))"
  by (simp add: eventToSale_1_def eventToSale_2_def)

theorem getOpenSeaSalesEvents_early_stop_witness:
  "map_sum id (map os_blockNumber)
     (getOpenSeaSalesEvents_1 ''archetype'' tokenZero0 5 eventsPage0 [eventsPageForeign])
     = Inr [10]
   \<and> map_sum id (map os_blockNumber)
     (getOpenSeaSalesEvents_2 ''archetype'' tokenZero0 5 eventsPage0 [eventsPageForeign])
     = Inr [10, 8]
   \<and> snd (openSeaEventModelToSubgraphModel_2 tokenZero0 ''archetype'' eventsPageForeign)
     = Inl UnexpectedOSResponse
   \<and> map_sum id (map os_blockNumber)
     (getOpenSeaSalesEvents_1 ''archetype'' tokenZero0 5 eventsPage1 [eventsPage0])
     = Inr [9, 10]
   \<and> map_sum id (map os_blockNumber)
     (getOpenSeaSalesEvents_2 ''archetype'' tokenZero0 5 eventsPage1 [eventsPage0])
     = Inr [9, 10, 8]
   \<and> map_sum id (map os_blockNumber)
     (getOpenSeaSalesEvents_1 ''archetype'' tokenZero0 5 [event0, foreignBundle] [])
     = Inr [10]"
proof -
  let ?a = "\<lparr>asset_token_id = ''23000001'', collection_slug = ''archetype''\<rparr>"
  let ?sale = "\<lambda>ev. newSale ev [singleLookupTable token0 ev ?a]"
  have t: "tokens tokenZero0 = token0 # []" by (simp add: tokenZero0_def)
  have p: "payload event0 = Asset ?a" "payload (event0\<lparr>block_number := 3\<rparr>) = Asset ?a"
    "payload (event0\<lparr>block_number := 8\<rparr>) = Asset ?a"
    "payload (event0\<lparr>block_number := 9\<rparr>) = Asset ?a"
    by (simp_all add: event0_def)
  note single = eventToSale_single [OF t p(1)] eventToSale_single [OF t p(2)]
    eventToSale_single [OF t p(3)] eventToSale_single [OF t p(4)]
  have b: "block_number event0 = 10" "block_number foreignBundle = 3"
    by (simp_all add: event0_def foreignBundle_def)
  have f1: "eventToSale_1 tokenZero0 ''archetype'' foreignBundle =
            ([WARN_bundle_with_multiple_slugs ''0xh0'', WARN_contact_devs,
              WARN_bundle_with_multiple_slugs ''0xh0'', WARN_contact_devs],
             Inr (newSale foreignBundle []))"
    by (simp add: eventToSale_1_def foreignBundle_def event0_def)
  have f2: "snd (openSeaEventModelToSubgraphModel_2 tokenZero0 ''archetype'' eventsPageForeign)
            = Inl UnexpectedOSResponse"
    by (simp add: openSeaEventModelToSubgraphModel_2_def eventsPageForeign_def
        eventToSale_2_def foreignBundle_def event0_def everySameSlug_def tokenZero0_def
        sublist_Cons_right Let_def)
  have c0: "snd (openSeaEventModelToSubgraphModel_1 tokenZero0 ''archetype'' eventsPage0)
              = Inr (map ?sale eventsPage0)"
    "snd (openSeaEventModelToSubgraphModel_2 tokenZero0 ''archetype'' eventsPage0)
              = Inr (map ?sale eventsPage0)"
    by (simp_all add: openSeaEventModelToSubgraphModel_1_def
        openSeaEventModelToSubgraphModel_2_def eventsPage0_def single)
  have c1: "snd (openSeaEventModelToSubgraphModel_1 tokenZero0 ''archetype'' eventsPage1)
              = Inr (map ?sale eventsPage1)"
    "snd (openSeaEventModelToSubgraphModel_2 tokenZero0 ''archetype'' eventsPage1)
              = Inr (map ?sale eventsPage1)"
    by (simp_all add: openSeaEventModelToSubgraphModel_1_def
        openSeaEventModelToSubgraphModel_2_def eventsPage1_def single)
  have cm: "snd (openSeaEventModelToSubgraphModel_1 tokenZero0 ''archetype''
                   [event0, foreignBundle])
              = Inr [?sale event0, newSale foreignBundle []]"
    by (simp add: openSeaEventModelToSubgraphModel_1_def single f1)
  have h0: "''archetype'' \<noteq> ''cryptocitizensofficial''" by simp
  note partly = getOpenSeaSalesEvents_early_stop
    [where collectionSlug = "''archetype''" and tokenZero = tokenZero0 and minBlockNumber = 5
       and asset_events = eventsPage0 and later = "[eventsPageForeign]"
       and readPages = "[eventsPage0]" and unread = "[eventsPageForeign]"
       and ?pages1.0 = "[map ?sale eventsPage0]" and ?pages2.0 = "[map ?sale eventsPage0]", OF h0]
  note wholly = getOpenSeaSalesEvents_early_stop
    [where collectionSlug = "''archetype''" and tokenZero = tokenZero0 and minBlockNumber = 5
       and asset_events = eventsPage1 and later = "[eventsPage0]"
       and readPages = "[eventsPage1, eventsPage0]" and unread = "[]"
       and ?pages1.0 = "[map ?sale eventsPage1, map ?sale eventsPage0]"
       and ?pages2.0 = "[map ?sale eventsPage1, map ?sale eventsPage0]", OF h0]
  note first_only = getOpenSeaSalesEvents_early_stop
    [where collectionSlug = "''archetype''" and tokenZero = tokenZero0 and minBlockNumber = 5
       and asset_events = "[event0, foreignBundle]" and later = "[]"
       and readPages = "[event0, foreignBundle] # []" and unread = "[]"
       and ?pages1.0 = "[?sale event0, newSale foreignBundle []] # []", OF h0]
  have 1: "map_sum id (map os_blockNumber)
     (getOpenSeaSalesEvents_1 ''archetype'' tokenZero0 5 eventsPage0 [eventsPageForeign])
     = Inr [10]
   \<and> map_sum id (map os_blockNumber)
     (getOpenSeaSalesEvents_2 ''archetype'' tokenZero0 5 eventsPage0 [eventsPageForeign])
     = Inr [10, 8]"
    using partly by (simp add: c0) (simp add: eventsPage0_def newSale_def b)
  have 2: "map_sum id (map os_blockNumber)
     (getOpenSeaSalesEvents_1 ''archetype'' tokenZero0 5 eventsPage1 [eventsPage0])
     = Inr [9, 10]
   \<and> map_sum id (map os_blockNumber)
     (getOpenSeaSalesEvents_2 ''archetype'' tokenZero0 5 eventsPage1 [eventsPage0])
     = Inr [9, 10, 8]"
    using wholly by (simp add: c0 c1) (simp add: eventsPage0_def eventsPage1_def newSale_def b)
  have 3: "map_sum id (map os_blockNumber)
     (getOpenSeaSalesEvents_1 ''archetype'' tokenZero0 5 [event0, foreignBundle] [])
     = Inr [10]"
    using first_only by (simp add: cm) (simp add: newSale_def b)
  from 1 2 3 f2 show ?thesis by blast
qed

text \<open>
  The second variant does not stop at the first event below the minimum block: of a page
  with events at blocks 10, 3 and 8 and a minimum of 5, it keeps the event at block 8, which
  comes after the one at block 3.
\<close>

theorem getOpenSeaSalesEvents_no_stop_counterexample:
  "map block_number eventsPage0 = [10, 3, 8]
   \<and> map_sum id (map os_blockNumber)
       (getOpenSeaSalesEvents_2 ''archetype'' tokenZero0 5 eventsPage0 []) = Inr [10, 8]"
proof -
  let ?a = "\<lparr>asset_token_id = ''23000001'', collection_slug = ''archetype''\<rparr>"
  have t: "tokens tokenZero0 = token0 # []" by (simp add: tokenZero0_def)
  have p: "payload event0 = Asset ?a" "payload (event0\<lparr>block_number := 3\<rparr>) = Asset ?a"
    "payload (event0\<lparr>block_number := 8\<rparr>) = Asset ?a"
    by (simp_all add: event0_def)
  have b: "block_number event0 = 10" by (simp add: event0_def)
  show ?thesis
    by (simp add: getOpenSeaSalesEvents_2_def openSeaEventModelToSubgraphModel_2_def
        scrollPages.simps [of _ _ _ "[]"] eventsPage0_def
        eventToSale_single [OF t p(1)] eventToSale_single [OF t p(2)]
        eventToSale_single [OF t p(3)] newSale_def b)
qed

subsection \<open>The assets kept of a bundle\<close>

lemma bundleAssets_1_eq:
  "tokens tokenZero = firstToken # others \<Longrightarrow>
   bundleAssets_1 tokenZero slug ev assets log lookupTables =
     (log @ concat (map (\<lambda>a. if collection_slug a = slug then []
                              else [WARN_bundle_with_multiple_slugs (transaction_hash ev),
                                    WARN_contact_devs]) assets),
      Inr (lookupTables
           @ map (bundleLookupTable firstToken ev) (filter (\<lambda>a. collection_slug a = slug) assets)))"
  by (induction assets arbitrary: log lookupTables) simp_all

lemma bundleAssets_2_similar:
  "tokens tokenZero = firstToken # others \<Longrightarrow>
   list_all (\<lambda>a. sublist slug (collection_slug a)) assets \<Longrightarrow>
   bundleAssets_2 tokenZero slug ev assets log lookupTables =
     (log @ concat (map (\<lambda>a. if collection_slug a = slug then []
                              else [WARN_similar_slug (asset_token_id a) slug (collection_slug a),
                                    WARN_contact_devs_or_OpenSea]) assets),
      Inr (lookupTables @ map (bundleLookupTable firstToken ev) assets))"
  by (induction assets arbitrary: log lookupTables) (simp_all add: Let_def)

lemma bundleAssets_2_other:
  "\<not> sublist slug (collection_slug a) \<Longrightarrow>
   bundleAssets_2 tokenZero slug ev (a # assets) log lookupTables =
     (log @ [ERROR_uniform_bundle_of_other_collection, ERROR_sale_tx_hash (transaction_hash ev),
             ERROR_reported_slug (collection_slug a), ERROR_expected_slug slug],
      Inl UnexpectedOSResponse)"
  by (auto simp: Let_def)

text \<open>
  Claim C5, as the code has it. For every bundle event, with a token to copy contract and
  project from:
  \<^item> the first variant keeps a lookup table for exactly the assets whose reported slug is the
    requested one, in order, and writes two warnings for each other asset; a bundle split
    over several collections keeps its matching assets;
  \<^item> the second variant gives a bundle whose assets do not all have the slug of the first
    one no lookup table and one warning;
  \<^item> for a bundle whose assets all have one slug, the second variant keeps a lookup table
    for every asset when that slug contains the requested one (equal to it or not), and
    throws when it does not.
\<close>

theorem bundle_assets_retained:
  assumes "payload ev = Asset_bundle assets" and "tokens tokenZero = firstToken # others"
  shows "snd (eventToSale_1 tokenZero slug ev) =
           Inr (newSale ev (map (bundleLookupTable firstToken ev)
                              (filter (\<lambda>a. collection_slug a = slug) assets)))
     \<and> length (fst (eventToSale_1 tokenZero slug ev)) =
           2 * length (filter (\<lambda>a. collection_slug a \<noteq> slug) assets)
     \<and> (\<not> everySameSlug assets \<longrightarrow>
           eventToSale_2 tokenZero slug ev =
             ([WARN_skipping_mixed_bundle (transaction_hash ev)], Inr (newSale ev [])))
     \<and> (everySameSlug assets \<and> list_all (\<lambda>a. sublist slug (collection_slug a)) assets \<longrightarrow>
           snd (eventToSale_2 tokenZero slug ev) =
             Inr (newSale ev (map (bundleLookupTable firstToken ev) assets)))
     \<and> (everySameSlug assets \<and> list_ex (\<lambda>a. \<not> sublist slug (collection_slug a)) assets \<longrightarrow>
           snd (eventToSale_2 tokenZero slug ev) = Inl UnexpectedOSResponse)"
proof -
  have 1: "snd (eventToSale_1 tokenZero slug ev) =
           Inr (newSale ev (map (bundleLookupTable firstToken ev)
                              (filter (\<lambda>a. collection_slug a = slug) assets)))"
    using assms by (simp add: eventToSale_1_def bundleAssets_1_eq)
  have "length (concat (map (\<lambda>a. if collection_slug a = slug then []
                              else [WARN_bundle_with_multiple_slugs (transaction_hash ev),
                                    WARN_contact_devs]) assets)) =
        2 * length (filter (\<lambda>a. collection_slug a \<noteq> slug) assets)"
    by (induction assets) simp_all
  then have 2: "length (fst (eventToSale_1 tokenZero slug ev)) =
           2 * length (filter (\<lambda>a. collection_slug a \<noteq> slug) assets)"
    using assms by (simp add: eventToSale_1_def bundleAssets_1_eq)
  have 3: "\<not> everySameSlug assets \<longrightarrow>
           eventToSale_2 tokenZero slug ev =
             ([WARN_skipping_mixed_bundle (transaction_hash ev)], Inr (newSale ev []))"
    using assms by (simp add: eventToSale_2_def)
  have 4: "everySameSlug assets \<and> list_all (\<lambda>a. sublist slug (collection_slug a)) assets \<longrightarrow>
           snd (eventToSale_2 tokenZero slug ev) =
             Inr (newSale ev (map (bundleLookupTable firstToken ev) assets))"
    using assms by (simp add: eventToSale_2_def bundleAssets_2_similar)
  have 5: "everySameSlug assets \<and> list_ex (\<lambda>a. \<not> sublist slug (collection_slug a)) assets \<longrightarrow>
           snd (eventToSale_2 tokenZero slug ev) = Inl UnexpectedOSResponse"
  proof
    assume h: "everySameSlug assets \<and> list_ex (\<lambda>a. \<not> sublist slug (collection_slug a)) assets"
    then obtain a0 rest where a: "assets = a0 # rest" by (cases assets) auto
    with h have "list_all (\<lambda>a. collection_slug a = collection_slug a0) assets"
      by (simp add: everySameSlug_def)
    with h have "\<not> sublist slug (collection_slug a0)"
      by (auto simp: list_all_iff list_ex_iff)
    from bundleAssets_2_other [OF this] h assms a
    show "snd (eventToSale_2 tokenZero slug ev) = Inl UnexpectedOSResponse"
      by (simp add: eventToSale_2_def)
  qed
  from 1 2 3 4 5 show ?thesis by blast
qed

theorem bundle_assets_retained_witness:
  "keptTokenIds (eventToSale_1 tokenZero0 ''archetype'' mixedBundle) = Inr [''23000001'']
   \<and> length (fst (eventToSale_1 tokenZero0 ''archetype'' mixedBundle)) = 2
   \<and> eventToSale_2 tokenZero0 ''archetype'' mixedBundle =
       ([WARN_skipping_mixed_bundle ''0xh0''], Inr (newSale mixedBundle []))
   \<and> keptTokenIds (eventToSale_2 tokenZero0 ''archetype'' similarBundle)
       = Inr [''23000001'', ''23000002'']
   \<and> snd (eventToSale_2 tokenZero0 ''punks'' similarBundle) = Inl UnexpectedOSResponse"
proof -
  let ?mixed = "[\<lparr>asset_token_id = ''23000001'', collection_slug = ''archetype''\<rparr>,
                 \<lparr>asset_token_id = ''7'', collection_slug = ''cryptopunks''\<rparr>]"
  let ?similar = "[\<lparr>asset_token_id = ''23000001'', collection_slug = ''archetype-v2''\<rparr>,
                   \<lparr>asset_token_id = ''23000002'', collection_slug = ''archetype-v2''\<rparr>]"
  have t: "tokens tokenZero0 = token0 # []" by (simp add: tokenZero0_def)
  have m: "payload mixedBundle = Asset_bundle ?mixed" by (simp add: mixedBundle_def)
  have s: "payload similarBundle = Asset_bundle ?similar" by (simp add: similarBundle_def)
  have h: "transaction_hash mixedBundle = ''0xh0''" by (simp add: mixedBundle_def event0_def)
  have e: "\<not> everySameSlug ?mixed" "everySameSlug ?similar" by (simp_all add: everySameSlug_def)
  have sub: "list_all (\<lambda>a. sublist ''archetype'' (collection_slug a)) ?similar"
    "list_ex (\<lambda>a. \<not> sublist ''punks'' (collection_slug a)) ?similar"
    by (simp_all add: sublist_Cons_right)
  from bundle_assets_retained [OF m t, of "''archetype''"]
       bundle_assets_retained [OF s t, of "''archetype''"]
       bundle_assets_retained [OF s t, of "''punks''"] e sub h
  show ?thesis
    by (simp add: keptTokenIds_def newSale_def bundleLookupTable_def newToken_def)
qed

text \<open>
  In the first variant a bundle split over two collections keeps the asset of the requested
  one: it has a lookup table, not none.
\<close>

theorem mixed_bundle_partly_retained_counterexample:
  "\<not> everySameSlug
       [\<lparr>asset_token_id = ''23000001'', collection_slug = ''archetype''\<rparr>,
        \<lparr>asset_token_id = ''7'', collection_slug = ''cryptopunks''\<rparr>]
   \<and> payload mixedBundle = Asset_bundle
       [\<lparr>asset_token_id = ''23000001'', collection_slug = ''archetype''\<rparr>,
        \<lparr>asset_token_id = ''7'', collection_slug = ''cryptopunks''\<rparr>]
   \<and> keptTokenIds (eventToSale_1 tokenZero0 ''archetype'' mixedBundle) = Inr [''23000001'']"
  by (simp add: everySameSlug_def mixedBundle_def eventToSale_1_def tokenZero0_def newSale_def
      keptTokenIds_def bundleLookupTable_def newToken_def)

end
